theory Spec2Isabelle
  imports Complex_Main
begin

section \<open>Python values and built-ins used by the training scripts\<close>

text \<open>
  The two scripts \<^verbatim>\<open>code/seq2seq/translate.py\<close> (the flat variant) and
  \<^verbatim>\<open>code/seq3seq/translate.py\<close> (the hierarchical variant) are embedded function by
  function. Every exception the Python can raise is a value \<open>Inl e\<close> of the result.
\<close>

datatype py_error =
    ValueError
  | IndexError
  | OverflowError
  | AttributeError
  | TypeError
  | NameError string
  | BdbQuit

subsection \<open>Strings: \<^verbatim>\<open>str.split\<close>, \<^verbatim>\<open>int\<close>, \<^verbatim>\<open>str\<close>\<close>

text \<open>
  The whitespace of \<^verbatim>\<open>str.split()\<close>: space, tab, line feed, vertical tab, form feed and
  carriage return.
\<close>

definition is_space :: "char \<Rightarrow> bool" where
  "is_space c \<longleftrightarrow> c \<in> {CHR '' '', CHR 0x09, CHR 0x0A, CHR 0x0B, CHR 0x0C, CHR 0x0D}"

text \<open>
  \<^verbatim>\<open>s.split()\<close>: the maximal runs of non-whitespace characters, left to right.
  The first argument is the run read so far.
\<close>

fun split_ws :: "string \<Rightarrow> string \<Rightarrow> string list" where
  "split_ws cur [] = (if cur = [] then [] else [cur])"
| "split_ws cur (c # cs) =
     (if is_space c then (if cur = [] then split_ws [] cs else cur # split_ws [] cs)
      else split_ws (cur @ [c]) cs)"

definition py_split :: "string \<Rightarrow> string list" where
  "py_split s = split_ws [] s"

text \<open>
  \<^verbatim>\<open>s.split(sep)\<close> for a non-empty separator: cut at every occurrence of \<open>sep\<close>, found
  left to right without overlap; the result always has at least one piece. An empty
  separator raises \<^verbatim>\<open>ValueError\<close>.
\<close>

fun split_at :: "string \<Rightarrow> string \<Rightarrow> string \<Rightarrow> string list" where
  "split_at sep cur [] = [cur]"
| "split_at sep cur (c # cs) =
     (if take (length sep) (c # cs) = sep
      then cur # split_at sep [] (drop (length sep - 1) cs)
      else split_at sep (cur @ [c]) cs)"

definition py_split_sep :: "string \<Rightarrow> string \<Rightarrow> py_error + string list" where
  "py_split_sep s sep = (if sep = [] then Inl ValueError else Inr (split_at sep [] s))"

text \<open>
  \<^verbatim>\<open>int(x)\<close> on a token without whitespace: an optional sign followed by one or more
  decimal digits; every other token raises \<^verbatim>\<open>ValueError\<close>. Digits outside ASCII and
  underscores between digits, which some Python versions accept, are not modelled: such
  a token counts as one that raises.
\<close>

definition digit_val :: "char \<Rightarrow> nat option" where
  "digit_val c =
     (let n = (of_char c :: nat) in if 48 \<le> n \<and> n \<le> 57 then Some (n - 48) else None)"

fun digits_val :: "nat \<Rightarrow> string \<Rightarrow> nat option" where
  "digits_val acc [] = Some acc"
| "digits_val acc (c # cs) =
     (case digit_val c of None \<Rightarrow> None | Some d \<Rightarrow> digits_val (10 * acc + d) cs)"

definition py_int :: "string \<Rightarrow> py_error + int" where
  "py_int s =
     (let (neg, ds) =
            (case s of
               [] \<Rightarrow> (False, [])
             | c # cs \<Rightarrow> if c = CHR ''-'' then (True, cs)
                        else if c = CHR ''+'' then (False, cs) else (False, s))
      in if ds = [] then Inl ValueError
         else (case digits_val 0 ds of
                 None \<Rightarrow> Inl ValueError
               | Some n \<Rightarrow> Inr (if neg then - int n else int n)))"

text \<open>\<^verbatim>\<open>[int(x) for x in xs]\<close>: the first token that does not parse raises.\<close>

fun py_ints :: "string list \<Rightarrow> py_error + int list" where
  "py_ints [] = Inr []"
| "py_ints (x # xs) =
     (case py_int x of
        Inl e \<Rightarrow> Inl e
      | Inr n \<Rightarrow> (case py_ints xs of Inl e \<Rightarrow> Inl e | Inr ns \<Rightarrow> Inr (n # ns)))"

text \<open>\<^verbatim>\<open>str(n)\<close> for an integer: its decimal digits, with a minus sign when negative.\<close>

definition digit_char :: "nat \<Rightarrow> char" where
  "digit_char d = ''0123456789'' ! d"

fun str_nat :: "nat \<Rightarrow> string" where
  "str_nat n =
     (if n < 10 then [digit_char n] else str_nat (n div 10) @ [digit_char (n mod 10)])"

declare str_nat.simps [simp del]

definition py_str :: "int \<Rightarrow> string" where
  "py_str i = (if i < 0 then CHR ''-'' # str_nat (nat (- i)) else str_nat (nat i))"

subsection \<open>Lists: slices, \<^verbatim>\<open>min\<close>, \<^verbatim>\<open>index\<close>\<close>

text \<open>\<^verbatim>\<open>xs[:n]\<close>: a negative \<open>n\<close> counts from the end.\<close>

definition slice_to :: "int \<Rightarrow> 'a list \<Rightarrow> 'a list" where
  "slice_to n xs = (if 0 \<le> n then take (nat n) xs else take (length xs - nat (- n)) xs)"

text \<open>\<^verbatim>\<open>xs[-n:]\<close> for a positive literal \<open>n\<close>: the last \<open>n\<close> elements, or all of them.\<close>

definition slice_last :: "nat \<Rightarrow> 'a list \<Rightarrow> 'a list" where
  "slice_last n xs = drop (length xs - n) xs"

text \<open>\<^verbatim>\<open>[x] * n\<close>: empty when \<open>n\<close> is not positive.\<close>

definition py_repeat :: "'a \<Rightarrow> int \<Rightarrow> 'a list" where
  "py_repeat x n = replicate (nat n) x"

text \<open>\<^verbatim>\<open>min(xs)\<close> on a list of indices: \<^verbatim>\<open>ValueError\<close> on the empty list.\<close>

definition py_min :: "nat list \<Rightarrow> py_error + nat" where
  "py_min xs = (case xs of [] \<Rightarrow> Inl ValueError | y # ys \<Rightarrow> Inr (fold min ys y))"

text \<open>\<^verbatim>\<open>xs.index(x)\<close>: the first position of \<open>x\<close>, \<^verbatim>\<open>ValueError\<close> when absent.\<close>

fun py_index :: "'a list \<Rightarrow> 'a \<Rightarrow> py_error + nat" where
  "py_index [] x = Inl ValueError"
| "py_index (y # ys) x =
     (if y = x then Inr 0
      else (case py_index ys x of Inl e \<Rightarrow> Inl e | Inr i \<Rightarrow> Inr (Suc i)))"

subsection \<open>Files read line by line\<close>

text \<open>
  A file is its content. \<open>readlines\<close> lists what the successive calls of
  \<^verbatim>\<open>readline()\<close> return before the empty string of end-of-file: each line with its
  line feed, and a last line without one when the file does not end in a line feed.
\<close>

fun lines_from :: "string \<Rightarrow> string \<Rightarrow> string list" where
  "lines_from cur [] = (if cur = [] then [] else [cur])"
| "lines_from cur (c # cs) =
     (if c = CHR 0x0A then (cur @ [c]) # lines_from [] cs else lines_from (cur @ [c]) cs)"

definition readlines :: "string \<Rightarrow> string list" where
  "readlines content = lines_from [] content"

section \<open>The flat variant: \<^verbatim>\<open>seq2seq/translate.py\<close>\<close>

type_synonym example = "int list \<times> int list"

text \<open>\<^verbatim>\<open>_buckets = [(200, 48)]\<close>\<close>

definition buckets_seq2seq :: "(nat \<times> nat) list" where
  "buckets_seq2seq = [(200, 48)]"

text \<open>
  The loop test \<^verbatim>\<open>not max_size or counter < max_size\<close>; \<open>None\<close> and \<open>0\<close> both mean
  no limit.
\<close>

definition within_limit :: "int option \<Rightarrow> int \<Rightarrow> bool" where
  "within_limit max_size counter =
     (case max_size of None \<Rightarrow> True | Some m \<Rightarrow> m = 0 \<or> counter < m)"

text \<open>
  The body of the loop of \<^verbatim>\<open>read_data\<close> up to the append: the ids of one line pair.
  \<open>eos\<close> is \<^verbatim>\<open>data_utils.EOS_ID\<close>. The slice is taken before the tokens are parsed.
\<close>

definition line_ids_seq2seq :: "int \<Rightarrow> int \<Rightarrow> int \<Rightarrow> string \<Rightarrow> string \<Rightarrow> py_error + example" where
  "line_ids_seq2seq eos truncate_in truncate_out source target =
     (case py_ints (slice_to truncate_in (py_split source)) of
        Inl e \<Rightarrow> Inl e
      | Inr source_ids \<Rightarrow>
          (case py_ints (slice_to truncate_out (py_split target)) of
             Inl e \<Rightarrow> Inl e
           | Inr target_ids \<Rightarrow> Inr (source_ids, target_ids @ [eos])))"

text \<open>
  The \<^verbatim>\<open>while\<close> loop of \<^verbatim>\<open>read_data\<close> over the lines still to be read; it ends when
  either file is exhausted or the limit is reached. Every pair is appended to
  \<^verbatim>\<open>data_set[0]\<close>, which raises \<^verbatim>\<open>IndexError\<close> when there is no bucket.
\<close>

fun read_loop_seq2seq ::
  "int \<Rightarrow> int option \<Rightarrow> int \<Rightarrow> int \<Rightarrow> string list \<Rightarrow> string list \<Rightarrow> int \<Rightarrow>
   example list list \<Rightarrow> py_error + example list list" where
  "read_loop_seq2seq eos max_size truncate_in truncate_out (source # sources) (target # targets)
       counter data_set =
     (if within_limit max_size counter then
        (case line_ids_seq2seq eos truncate_in truncate_out source target of
           Inl e \<Rightarrow> Inl e
         | Inr ex \<Rightarrow>
             (case data_set of
                [] \<Rightarrow> Inl IndexError
              | b0 # bs \<Rightarrow>
                  read_loop_seq2seq eos max_size truncate_in truncate_out sources targets
                    (counter + 1) ((b0 @ [ex]) # bs)))
      else Inr data_set)"
| "read_loop_seq2seq eos max_size truncate_in truncate_out sources targets counter data_set =
     Inr data_set"

definition read_data_seq2seq ::
  "(nat \<times> nat) list \<Rightarrow> int \<Rightarrow> string \<Rightarrow> string \<Rightarrow> int option \<Rightarrow> int \<Rightarrow> int \<Rightarrow>
   py_error + example list list" where
  "read_data_seq2seq buckets eos source_file target_file max_size truncate_in truncate_out =
     read_loop_seq2seq eos max_size truncate_in truncate_out
       (readlines source_file) (readlines target_file) 0 (map (\<lambda>_. []) buckets)"

section \<open>The hierarchical variant: \<^verbatim>\<open>seq3seq/translate.py\<close>\<close>

text \<open>An article is a list of sentences, each a list of ids.\<close>

type_synonym article_example = "int list list \<times> int list"

text \<open>\<^verbatim>\<open>_buckets = [(1,48),(5, 48),(7,48),(10,48),(15,48),(20,48)]\<close>\<close>

definition buckets_seq3seq :: "(nat \<times> nat) list" where
  "buckets_seq3seq = [(1, 48), (5, 48), (7, 48), (10, 48), (15, 48), (20, 48)]"

text \<open>\<^verbatim>\<open>[[int(x) for x in sent.split()] for sent in source_strings]\<close>\<close>

fun source_sents :: "string list \<Rightarrow> py_error + int list list" where
  "source_sents [] = Inr []"
| "source_sents (sent # sents) =
     (case py_ints (py_split sent) of
        Inl e \<Rightarrow> Inl e
      | Inr ids \<Rightarrow> (case source_sents sents of Inl e \<Rightarrow> Inl e | Inr rest \<Rightarrow> Inr (ids # rest)))"

text \<open>
  One sentence of \<^verbatim>\<open>source_ids\<close>: its clipped length first, then the sentence cut to
  \<^verbatim>\<open>FLAGS.max_sent\<close> ids and padded with zeros.
\<close>

definition pad_sent :: "int \<Rightarrow> int list \<Rightarrow> int list" where
  "pad_sent max_sent sent =
     [min (int (length sent)) max_sent] @ slice_to max_sent sent
       @ py_repeat 0 (max_sent - int (length sent))"

text \<open>The ids of one line pair: the article split at the separator \<^verbatim>\<open>" <EOS_ID> "\<close>.\<close>

definition line_ids_seq3seq :: "int \<Rightarrow> int \<Rightarrow> string \<Rightarrow> string \<Rightarrow> py_error + article_example" where
  "line_ids_seq3seq eos max_sent source target =
     (case py_split_sep source ('' '' @ py_str eos @ '' '') of
        Inl e \<Rightarrow> Inl e
      | Inr source_strings \<Rightarrow>
          (case source_sents source_strings of
             Inl e \<Rightarrow> Inl e
           | Inr sents \<Rightarrow>
               (case py_ints (py_split target) of
                  Inl e \<Rightarrow> Inl e
                | Inr target_ids \<Rightarrow> Inr (map (pad_sent max_sent) sents, target_ids @ [eos]))))"

text \<open>
  \<^verbatim>\<open>sorted(enumerate(_buckets), key = lambda tup : tup[0], reverse=True)\<close>: the buckets
  with their indices, largest index first.
\<close>

definition buckets_descending :: "(nat \<times> nat) list \<Rightarrow> (nat \<times> nat \<times> nat) list" where
  "buckets_descending buckets = rev (sort_key fst (enumerate 0 buckets))"

text \<open>
  The \<^verbatim>\<open>for\<close> loop over the buckets: the first one, in that order, that the article
  overflows and whose target size exceeds the target length; the loop stops there
  (\<^verbatim>\<open>break\<close>). \<open>None\<close> when the loop runs to its end.
\<close>

fun first_overflowed :: "(nat \<times> nat \<times> nat) list \<Rightarrow> nat \<Rightarrow> nat \<Rightarrow> (nat \<times> nat) option" where
  "first_overflowed [] n_source n_target = None"
| "first_overflowed ((bucket_id, source_size, target_size) # rest) n_source n_target =
     (if n_source > source_size \<and> n_target < target_size then Some (bucket_id, source_size)
      else first_overflowed rest n_source n_target)"

text \<open>
  The bucketing of one article:
  \<^verbatim>\<open>data_set[bucket_id].append([source_ids[:source_size], target_ids])\<close> for the bucket
  found, nothing otherwise. \<open>data_set\<close> has one list for each bucket.
\<close>

definition put_in_bucket ::
  "(nat \<times> nat) list \<Rightarrow> article_example \<Rightarrow> article_example list list \<Rightarrow> article_example list list" where
  "put_in_bucket buckets ex data_set =
     (case first_overflowed (buckets_descending buckets) (length (fst ex)) (length (snd ex)) of
        None \<Rightarrow> data_set
      | Some (bucket_id, source_size) \<Rightarrow>
          data_set[bucket_id := data_set ! bucket_id @ [(take source_size (fst ex), snd ex)]])"

fun read_loop_seq3seq ::
  "(nat \<times> nat) list \<Rightarrow> int \<Rightarrow> int \<Rightarrow> int option \<Rightarrow> string list \<Rightarrow> string list \<Rightarrow> int \<Rightarrow>
   article_example list list \<Rightarrow> py_error + article_example list list" where
  "read_loop_seq3seq buckets eos max_sent max_size (source # sources) (target # targets)
       counter data_set =
     (if within_limit max_size counter then
        (case line_ids_seq3seq eos max_sent source target of
           Inl e \<Rightarrow> Inl e
         | Inr ex \<Rightarrow>
             read_loop_seq3seq buckets eos max_sent max_size sources targets (counter + 1)
               (put_in_bucket buckets ex data_set))
      else Inr data_set)"
| "read_loop_seq3seq buckets eos max_sent max_size sources targets counter data_set =
     Inr data_set"

definition read_data_seq3seq ::
  "(nat \<times> nat) list \<Rightarrow> int \<Rightarrow> int \<Rightarrow> string \<Rightarrow> string \<Rightarrow> int option \<Rightarrow>
   py_error + article_example list list" where
  "read_data_seq3seq buckets eos max_sent source_file target_file max_size =
     read_loop_seq3seq buckets eos max_sent max_size
       (readlines source_file) (readlines target_file) 0 (map (\<lambda>_. []) buckets)"

section \<open>Floats\<close>

text \<open>
  The losses, the random draw and the perplexity are Python floats. A float is modelled
  by the real number it stands for, or one of the three special values; rounding is not
  modelled. Comparisons follow IEEE 754: every comparison with \<open>NaN\<close> is false.
\<close>

datatype pyfloat = Fin real | PosInf | NegInf | NaN

fun float_lt :: "pyfloat \<Rightarrow> pyfloat \<Rightarrow> bool" where
  "float_lt (Fin a) (Fin b) = (a < b)"
| "float_lt (Fin a) PosInf = True"
| "float_lt NegInf (Fin b) = True"
| "float_lt NegInf PosInf = True"
| "float_lt a b = False"

definition float_gt :: "pyfloat \<Rightarrow> pyfloat \<Rightarrow> bool" where
  "float_gt a b = float_lt b a"

text \<open>
  \<^verbatim>\<open>max(xs)\<close>: the running maximum is replaced only by an element greater than it;
  \<^verbatim>\<open>ValueError\<close> on the empty list.
\<close>

definition py_max :: "pyfloat list \<Rightarrow> py_error + pyfloat" where
  "py_max xs =
     (case xs of
        [] \<Rightarrow> Inl ValueError
      | y # ys \<Rightarrow> Inr (fold (\<lambda>x m. if float_gt x m then x else m) ys y))"

text \<open>The largest finite double, \<^verbatim>\<open>(2 - 2**-52) * 2**1023\<close>.\<close>

definition dbl_max :: real where
  "dbl_max = (2 ^ 53 - 1) * 2 ^ 971"

text \<open>\<^verbatim>\<open>math.exp(x)\<close>: \<^verbatim>\<open>OverflowError\<close> when the result is beyond the largest double.\<close>

definition math_exp :: "pyfloat \<Rightarrow> py_error + pyfloat" where
  "math_exp x =
     (case x of
        Fin r \<Rightarrow> if exp r > dbl_max then Inl OverflowError else Inr (Fin (exp r))
      | PosInf \<Rightarrow> Inr PosInf
      | NegInf \<Rightarrow> Inr (Fin 0)
      | NaN \<Rightarrow> Inr NaN)"

section \<open>\<^verbatim>\<open>create_model\<close>\<close>

text \<open>
  The checkpoint logic of \<^verbatim>\<open>create_model\<close> is the same in both variants. The
  framework's operations are parameters: \<open>get_checkpoint_state\<close> reads the checkpoint
  state of a directory (\<open>None\<close> when there is none) and \<open>exists\<close> tests a path;
  \<open>restore\<close> loads parameters from a path and \<open>initialize\<close> creates fresh ones, and
  either may fail inside the framework. The result holds the line printed and the
  parameters of the session.
\<close>

record checkpoint_state =
  model_checkpoint_path :: string

definition create_model ::
  "(string \<Rightarrow> checkpoint_state option) \<Rightarrow> (string \<Rightarrow> bool) \<Rightarrow> (string \<Rightarrow> py_error + 'p) \<Rightarrow>
   (py_error + 'p) \<Rightarrow> string \<Rightarrow> py_error + (string \<times> 'p)" where
  "create_model get_checkpoint_state exists restore initialize train_dir =
     (let fresh =
            (case initialize of
               Inl e \<Rightarrow> Inl e
             | Inr p \<Rightarrow> Inr (''Created model with fresh parameters.'', p))
      in case get_checkpoint_state train_dir of
           None \<Rightarrow> fresh
         | Some ckpt \<Rightarrow>
             if exists (model_checkpoint_path ckpt) then
               (case restore (model_checkpoint_path ckpt) of
                  Inl e \<Rightarrow> Inl e
                | Inr p \<Rightarrow>
                    Inr (''Reading model parameters from '' @ model_checkpoint_path ckpt, p))
             else fresh)"

section \<open>\<^verbatim>\<open>train\<close>\<close>

text \<open>
  The bucket of one training step:
  \<^verbatim>\<open>min([i for i in xrange(len(train_buckets_scale)) if train_buckets_scale[i] > random_number_01])\<close>
\<close>

definition train_bucket_id :: "pyfloat list \<Rightarrow> pyfloat \<Rightarrow> py_error + nat" where
  "train_bucket_id train_buckets_scale random_number_01 =
     py_min (filter (\<lambda>i. float_gt (train_buckets_scale ! i) random_number_01)
               [0..<length train_buckets_scale])"

text \<open>\<^verbatim>\<open>perplexity = math.exp(loss) if loss < 300 else float('inf')\<close>\<close>

definition perplexity :: "pyfloat \<Rightarrow> py_error + pyfloat" where
  "perplexity loss = (if float_lt loss (Fin 300) then math_exp loss else Inr PosInf)"

text \<open>\<^verbatim>\<open>len(previous_losses) > 2 and loss > max(previous_losses[-3:])\<close>\<close>

definition no_improvement :: "pyfloat list \<Rightarrow> pyfloat \<Rightarrow> py_error + bool" where
  "no_improvement previous_losses loss =
     (if length previous_losses > 2 then
        (case py_max (slice_last 3 previous_losses) of
           Inl e \<Rightarrow> Inl e
         | Inr m \<Rightarrow> Inr (float_gt loss m))
      else Inr False)"

text \<open>
  The state of the training loop that the checkpoint block reads and writes; \<open>model\<close>
  is the framework's model, which holds the learning rate and the global step. What
  the block does outside this state is recorded as a list of effects, in order.
\<close>

record 'm train_state =
  model :: 'm
  step_time :: pyfloat
  loss :: pyfloat
  previous_losses :: "pyfloat list"

datatype 'm effect =
    PrintStats 'm pyfloat pyfloat
  | WritePerplexityLog 'm pyfloat pyfloat
  | RunDecayOp
  | SaveCheckpoint 'm

text \<open>
  The block run at a checkpoint boundary. \<open>decay_op\<close> is what
  \<^verbatim>\<open>sess.run(model.learning_rate_decay_op)\<close> does to the model, and \<open>perplexity_log\<close>
  tells whether \<^verbatim>\<open>FLAGS.perplexity_log\<close> is set. The hierarchical variant has no
  perplexity log: its block is this one with \<open>perplexity_log = False\<close>.
\<close>

definition train_checkpoint ::
  "('m \<Rightarrow> 'm) \<Rightarrow> bool \<Rightarrow> 'm train_state \<Rightarrow> py_error + ('m effect list \<times> 'm train_state)" where
  "train_checkpoint decay_op perplexity_log s =
     (case perplexity (loss s) of
        Inl e \<Rightarrow> Inl e
      | Inr ppl \<Rightarrow>
          (case no_improvement (previous_losses s) (loss s) of
             Inl e \<Rightarrow> Inl e
           | Inr decay \<Rightarrow>
               (let m = (if decay then decay_op (model s) else model s) in
                Inr ([PrintStats (model s) (step_time s) ppl]
                       @ (if perplexity_log then [WritePerplexityLog (model s) (step_time s) ppl]
                          else [])
                       @ (if decay then [RunDecayOp] else [])
                       @ [SaveCheckpoint m],
                     \<lparr>model = m, step_time = Fin 0, loss = Fin 0,
                      previous_losses = previous_losses s @ [loss s]\<rparr>))))"

section \<open>\<^verbatim>\<open>decode\<close> of the hierarchical variant\<close>

text \<open>
  \<^verbatim>\<open>min([b for b in xrange(len(_buckets)) if _buckets[b][0] > len(token_ids)])\<close>
\<close>

definition decode_bucket_id :: "(nat \<times> nat) list \<Rightarrow> int list \<Rightarrow> py_error + nat" where
  "decode_bucket_id buckets token_ids =
     py_min (filter (\<lambda>b. fst (buckets ! b) > length token_ids) [0..<length buckets])"

text \<open>
  \<^verbatim>\<open>if data_utils.EOS_ID in outputs: outputs = outputs[:outputs.index(data_utils.EOS_ID)]\<close>
\<close>

definition cut_at_eos :: "int \<Rightarrow> int list \<Rightarrow> py_error + int list" where
  "cut_at_eos eos outputs =
     (if eos \<in> set outputs then
        (case py_index outputs eos of Inl e \<Rightarrow> Inl e | Inr i \<Rightarrow> Inr (take i outputs))
      else Inr outputs)"

text \<open>
  The decoding of one article, from its token ids to the ids that are printed. The
  framework is a parameter: \<open>step b token_ids\<close> stands for \<^verbatim>\<open>model.get_batch\<close> followed by
  the forward-only \<^verbatim>\<open>model.step\<close> in bucket \<open>b\<close>, giving one logit array for each output
  position, and \<open>argmax\<close> for \<^verbatim>\<open>int(np.argmax(logit, axis=1))\<close>.
\<close>

definition decode_article ::
  "(nat \<times> nat) list \<Rightarrow> int \<Rightarrow> (nat \<Rightarrow> int list \<Rightarrow> py_error + 'l list) \<Rightarrow> ('l \<Rightarrow> int) \<Rightarrow>
   int list \<Rightarrow> py_error + int list" where
  "decode_article buckets eos step argmax token_ids =
     (case decode_bucket_id buckets token_ids of
        Inl e \<Rightarrow> Inl e
      | Inr bucket_id \<Rightarrow>
          (case step bucket_id token_ids of
             Inl e \<Rightarrow> Inl e
           | Inr output_logits \<Rightarrow> cut_at_eos eos (map argmax output_logits)))"

section \<open>\<^verbatim>\<open>decode\<close> of the flat variant: the sampling loop\<close>

text \<open>
  The names a function can read are those bound in its frame, in the module or among
  the built-ins; reading any other name raises \<^verbatim>\<open>NameError\<close>. The environment maps
  the bound names to their values.
\<close>

definition lookup_name :: "(string \<rightharpoonup> 'v) \<Rightarrow> string \<Rightarrow> py_error + 'v" where
  "lookup_name env x = (case env x of None \<Rightarrow> Inl (NameError x) | Some v \<Rightarrow> Inr v)"

text \<open>
  The comprehension
  \<^verbatim>\<open>[tf.arg_max(np.random.multinomial(1,logit),0) for batch_logits in output_logits[0] for logit in batch_logit]\<close>
  over the rows of \<^verbatim>\<open>output_logits[0]\<close>. Each row is bound to \<^verbatim>\<open>batch_logits\<close>; the
  inner loop then reads the name \<^verbatim>\<open>batch_logit\<close> and iterates over its value (\<open>iter\<close>,
  which fails on a value that is not iterable), binding \<^verbatim>\<open>logit\<close>; \<open>draw\<close> is the
  sampling expression.
\<close>

fun generated_tokens ::
  "('v \<Rightarrow> py_error + 'v list) \<Rightarrow> ('v \<Rightarrow> int) \<Rightarrow> (string \<rightharpoonup> 'v) \<Rightarrow> 'v list \<Rightarrow> py_error + int list" where
  "generated_tokens iter draw env [] = Inr []"
| "generated_tokens iter draw env (row # rows) =
     (let env1 = env(''batch_logits'' \<mapsto> row) in
      case lookup_name env1 ''batch_logit'' of
        Inl e \<Rightarrow> Inl e
      | Inr it \<Rightarrow>
          (case iter it of
             Inl e \<Rightarrow> Inl e
           | Inr logits \<Rightarrow>
               (let env2 = (if logits = [] then env1 else env1(''logit'' \<mapsto> last logits)) in
                case generated_tokens iter draw env2 rows of
                  Inl e \<Rightarrow> Inl e
                | Inr rest \<Rightarrow> Inr (map draw logits @ rest))))"

text \<open>
  \<^verbatim>\<open>decoder_inputs_generated.append(generated)\<close>: \<^verbatim>\<open>decoder_inputs_generated\<close> is the
  array made by \<^verbatim>\<open>np.zeros_like\<close>, and an array has no attribute \<^verbatim>\<open>append\<close>.
\<close>

definition ndarray_append :: "'g \<Rightarrow> int list \<Rightarrow> py_error + 'g" where
  "ndarray_append arr x = Inl AttributeError"

text \<open>
  \<^verbatim>\<open>pdb.set_trace()\<close> stops in the debugger: the operator continues the run, or quits
  it, which raises \<^verbatim>\<open>BdbQuit\<close>.
\<close>

definition set_trace :: "bool \<Rightarrow> py_error + unit" where
  "set_trace continue = (if continue then Inr () else Inl BdbQuit)"

text \<open>
  One pass of the loop \<^verbatim>\<open>for _ in xrange(_buckets[bucket_id][1])\<close>. \<open>step\<close> is the
  forward-only \<^verbatim>\<open>model.step\<close> on the generated decoder inputs, giving for each position
  the rows of the batch.
\<close>

definition sampling_pass ::
  "('g \<Rightarrow> py_error + 'v list list) \<Rightarrow> bool \<Rightarrow> ('v \<Rightarrow> py_error + 'v list) \<Rightarrow> ('v \<Rightarrow> int) \<Rightarrow>
   (string \<rightharpoonup> 'v) \<Rightarrow> 'g \<Rightarrow> py_error + 'g" where
  "sampling_pass step continue iter draw env decoder_inputs_generated =
     (case step decoder_inputs_generated of
        Inl e \<Rightarrow> Inl e
      | Inr output_logits \<Rightarrow>
          (case set_trace continue of
             Inl e \<Rightarrow> Inl e
           | Inr _ \<Rightarrow>
               (case output_logits of
                  [] \<Rightarrow> Inl IndexError
                | rows # _ \<Rightarrow>
                    (case generated_tokens iter draw env rows of
                       Inl e \<Rightarrow> Inl e
                     | Inr generated \<Rightarrow> ndarray_append decoder_inputs_generated generated))))"

fun sampling_loop ::
  "nat \<Rightarrow> ('g \<Rightarrow> py_error + 'v list list) \<Rightarrow> bool \<Rightarrow> ('v \<Rightarrow> py_error + 'v list) \<Rightarrow> ('v \<Rightarrow> int) \<Rightarrow>
   (string \<rightharpoonup> 'v) \<Rightarrow> 'g \<Rightarrow> py_error + 'g" where
  "sampling_loop 0 step continue iter draw env decoder_inputs_generated =
     Inr decoder_inputs_generated"
| "sampling_loop (Suc n) step continue iter draw env decoder_inputs_generated =
     (case sampling_pass step continue iter draw env decoder_inputs_generated of
        Inl e \<Rightarrow> Inl e
      | Inr g \<Rightarrow> sampling_loop n step continue iter draw env g)"

text \<open>
  The sampling loop of \<^verbatim>\<open>decode\<close> for one bucket: as many passes as the bucket's target
  size.
\<close>

definition decode_sampling ::
  "(nat \<times> nat) list \<Rightarrow> nat \<Rightarrow> ('g \<Rightarrow> py_error + 'v list list) \<Rightarrow> bool \<Rightarrow>
   ('v \<Rightarrow> py_error + 'v list) \<Rightarrow> ('v \<Rightarrow> int) \<Rightarrow> (string \<rightharpoonup> 'v) \<Rightarrow> 'g \<Rightarrow> py_error + 'g" where
  "decode_sampling buckets bucket_id step continue iter draw env decoder_inputs_generated =
     sampling_loop (snd (buckets ! bucket_id)) step continue iter draw env
       decoder_inputs_generated"

text \<open>
  The names bound when the comprehension is reached: the locals of \<^verbatim>\<open>decode\<close> assigned
  before it, and the names the module binds (its imports, flags, constants and
  functions). The built-ins and the module's double-underscore attributes are left out;
  none of them is called \<^verbatim>\<open>batch_logit\<close>.
\<close>

definition decode_names :: "string list" where
  "decode_names =
     [''articles_train'', ''titles_train'', ''_'', ''sess'', ''model'', ''train_set'',
      ''article_vocab_path'', ''title_vocab_path'', ''article_vocab'', ''rev_title_vocab'',
      ''bucket_id'', ''encoder_inputs'', ''decoder_inputs_true'', ''target_weights'',
      ''decoder_inputs_generated'', ''output_logits'',
      ''absolute_import'', ''division'', ''print_function'', ''math'', ''os'', ''random'',
      ''sys'', ''time'', ''pdb'', ''np'', ''xrange'', ''tf'', ''data_utils'', ''seq2seq_model'',
      ''FLAGS'', ''_buckets'', ''read_data'', ''create_model'', ''train'', ''decode'', ''main'']"

definition frame_of :: "string list \<Rightarrow> 'v \<Rightarrow> (string \<rightharpoonup> 'v)" where
  "frame_of names v = map_of (map (\<lambda>n. (n, v)) names)"

text \<open>
  The rest of \<^verbatim>\<open>decode\<close> for one bucket. \<^verbatim>\<open>xs[i]\<close> for an index that is not negative:
\<close>

definition get_item :: "'a list \<Rightarrow> nat \<Rightarrow> py_error + 'a" where
  "get_item xs i = (if i < length xs then Inr (xs ! i) else Inl IndexError)"

text \<open>A list comprehension whose element expression may raise.\<close>

fun comprehension :: "('a \<Rightarrow> py_error + 'b) \<Rightarrow> 'a list \<Rightarrow> py_error + 'b list" where
  "comprehension f [] = Inr []"
| "comprehension f (x # xs) =
     (case f x of
        Inl e \<Rightarrow> Inl e
      | Inr y \<Rightarrow> (case comprehension f xs of Inl e \<Rightarrow> Inl e | Inr ys \<Rightarrow> Inr (y # ys)))"

text \<open>
  \<^verbatim>\<open>[[arr[w][b] for w in xrange(_buckets[bucket_id][1])] for b in xrange(FLAGS.batch_size)]\<close>
\<close>

definition batch_major :: "nat \<Rightarrow> nat \<Rightarrow> int list list \<Rightarrow> py_error + int list list" where
  "batch_major target_size batch_size arr =
     comprehension
       (\<lambda>b. comprehension
              (\<lambda>w. case get_item arr w of Inl e \<Rightarrow> Inl e | Inr row \<Rightarrow> get_item row b)
              [0..<target_size])
       [0..<batch_size]"

text \<open>
  The loop \<^verbatim>\<open>for idx in xrange(batch_size)\<close> that cuts each output at the end-of-sequence
  id. Its bound is read from the plain name \<^verbatim>\<open>batch_size\<close>; \<open>to_nat\<close> is how
  \<^verbatim>\<open>xrange\<close> reads the value found, failing on one that is not an integer.
\<close>

fun cut_loop :: "int \<Rightarrow> nat list \<Rightarrow> int list list \<Rightarrow> py_error + int list list" where
  "cut_loop eos [] outputs = Inr outputs"
| "cut_loop eos (idx # idxs) outputs =
     (case get_item outputs idx of
        Inl e \<Rightarrow> Inl e
      | Inr out \<Rightarrow>
          (case cut_at_eos eos out of
             Inl e \<Rightarrow> Inl e
           | Inr out' \<Rightarrow> cut_loop eos idxs (outputs[idx := out'])))"

definition cut_outputs_seq2seq ::
  "(string \<rightharpoonup> 'v) \<Rightarrow> ('v \<Rightarrow> py_error + nat) \<Rightarrow> int \<Rightarrow> int list list \<Rightarrow>
   py_error + int list list" where
  "cut_outputs_seq2seq env to_nat eos outputs =
     (case lookup_name env ''batch_size'' of
        Inl e \<Rightarrow> Inl e
      | Inr v \<Rightarrow>
          (case to_nat v of
             Inl e \<Rightarrow> Inl e
           | Inr n \<Rightarrow> cut_loop eos [0..<n] outputs))"

text \<open>
  The body of the loop over the buckets, up to the cut: \<open>get_batch\<close> gives the true
  decoder inputs, one row for each word position; the generated inputs start as zeros
  with the first row copied; then come the breakpoint, the sampling loop, the two
  reshapes and the cut. \<open>batch_size\<close> is \<^verbatim>\<open>FLAGS.batch_size\<close>. The result is the pair of
  the outputs and the true titles that the function goes on to print. The names bound
  after the sampling loop (\<^verbatim>\<open>generated\<close>, \<^verbatim>\<open>outputs\<close>, \<^verbatim>\<open>trues\<close> and the loop
  variables) are not added to the environment: the cut reads only \<^verbatim>\<open>batch_size\<close>.
\<close>

definition decode_bucket_seq2seq ::
  "(nat \<times> nat) list \<Rightarrow> nat \<Rightarrow> nat \<Rightarrow> int \<Rightarrow> (nat \<Rightarrow> py_error + int list list) \<Rightarrow>
   (int list list \<Rightarrow> py_error + 'v list list) \<Rightarrow> bool \<Rightarrow> ('v \<Rightarrow> py_error + 'v list) \<Rightarrow>
   ('v \<Rightarrow> int) \<Rightarrow> ('v \<Rightarrow> py_error + nat) \<Rightarrow> (string \<rightharpoonup> 'v) \<Rightarrow>
   py_error + (int list list \<times> int list list)" where
  "decode_bucket_seq2seq buckets bucket_id batch_size eos get_batch step continue iter draw
       to_nat env =
     (case get_batch bucket_id of
        Inl e \<Rightarrow> Inl e
      | Inr decoder_inputs_true \<Rightarrow>
          (case decoder_inputs_true of
             [] \<Rightarrow> Inl IndexError
           | first # rest \<Rightarrow>
               (case set_trace continue of
                  Inl e \<Rightarrow> Inl e
                | Inr _ \<Rightarrow>
                    (case decode_sampling buckets bucket_id step continue iter draw env
                            (first # map (map (\<lambda>_. 0)) rest) of
                       Inl e \<Rightarrow> Inl e
                     | Inr generated \<Rightarrow>
                         (case batch_major (snd (buckets ! bucket_id)) batch_size generated of
                            Inl e \<Rightarrow> Inl e
                          | Inr outputs \<Rightarrow>
                              (case batch_major (snd (buckets ! bucket_id)) batch_size
                                      decoder_inputs_true of
                                 Inl e \<Rightarrow> Inl e
                               | Inr trues \<Rightarrow>
                                   (case cut_outputs_seq2seq env to_nat eos outputs of
                                      Inl e \<Rightarrow> Inl e
                                    | Inr outs \<Rightarrow> Inr (outs, trues))))))))"

section \<open>Properties\<close>

subsection \<open>The smallest index that passes a test\<close>

lemma py_min_filter_upt:
  assumes "i < n" "P i"
  shows "\<exists>k. py_min (filter P [0..<n]) = Inr k \<and> k < n \<and> P k \<and> (\<forall>j<k. \<not> P j)"
proof -
  let ?S = "{k. k < n \<and> P k}"
  have ne: "filter P [0..<n] \<noteq> []"
    using assms by (auto simp: filter_empty_conv)
  then obtain y ys where ys: "filter P [0..<n] = y # ys"
    by (cases "filter P [0..<n]") auto
  have "set (filter P [0..<n]) = ?S" by auto
  then have S: "set (y # ys) = ?S" by (simp only: ys)
  have fin: "finite ?S" by simp
  have "fold min ys y = Min (set (y # ys))"
    by (simp only: Min.set_eq_fold)
  then have m: "fold min ys y = Min ?S"
    by (simp only: S)
  have "i \<in> ?S" using assms by simp
  then have ne: "?S \<noteq> {}" by blast
  have mem: "Min ?S \<in> ?S" using fin ne by (rule Min_in)
  have least: "\<forall>j < Min ?S. \<not> P j"
  proof (intro allI impI notI)
    fix j assume j: "j < Min ?S" and "P j"
    from j mem have "j < n" by auto
    with \<open>P j\<close> have "j \<in> ?S" by simp
    with fin have "Min ?S \<le> j" by (rule Min_le)
    with j show False by simp
  qed
  have "py_min (filter P [0..<n]) = Inr (Min ?S)"
    by (simp only: py_min_def ys m list.case)
  with mem least show ?thesis by blast
qed

lemma py_min_filter_upt_none:
  assumes "\<forall>i<n. \<not> P i"
  shows "py_min (filter P [0..<n]) = Inl ValueError"
proof -
  have "filter P [0..<n] = []" using assms by (auto simp: filter_empty_conv)
  then show ?thesis by (simp add: py_min_def)
qed

lemma py_min_filter_upt_least:
  assumes "b < n" "P b" "\<forall>j<b. \<not> P j"
  shows "py_min (filter P [0..<n]) = Inr b"
proof -
  from assms(1,2) obtain k where k: "py_min (filter P [0..<n]) = Inr k"
     "k < n" "P k" "\<forall>j<k. \<not> P j"
    using py_min_filter_upt [of b n P] by blast
  have "\<not> k < b" using assms(3) k(3) by blast
  moreover have "\<not> b < k" using k(4) assms(2) by blast
  ultimately have "k = b" by simp
  with k(1) show ?thesis by simp
qed

lemma upt_2: "[0..<2] = [0, Suc 0]"
  by (simp add: upt_rec)

text \<open>
  Claim C3. For a draw \<open>r\<close> in \<open>[0, 1)\<close> and a non-empty bucket scale whose last entry is
  \<open>1.0\<close>, the training loop selects a bucket, and it is the smallest index whose scale
  entry is greater than the draw. With the scale \<open>[0.3, 1.0]\<close> and the draw \<open>0.5\<close> the
  bucket selected is 1.
\<close>

theorem train_bucket_id_smallest:
  assumes "0 \<le> r" and "r < 1" and "scale \<noteq> []" and "last scale = Fin 1"
  shows "(\<exists>i. train_bucket_id scale (Fin r) = Inr i \<and> i < length scale
              \<and> float_gt (scale ! i) (Fin r)
              \<and> (\<forall>j<i. \<not> float_gt (scale ! j) (Fin r)))
         \<and> train_bucket_id [Fin 0.3, Fin 1.0] (Fin 0.5) = Inr 1"
proof
  have "length scale - 1 < length scale" using assms(3) by simp
  moreover have "scale ! (length scale - 1) = Fin 1"
    using assms(3,4) by (simp add: last_conv_nth)
  then have "float_gt (scale ! (length scale - 1)) (Fin r)"
    using assms(2) by (simp add: float_gt_def)
  ultimately show "\<exists>i. train_bucket_id scale (Fin r) = Inr i \<and> i < length scale
              \<and> float_gt (scale ! i) (Fin r)
              \<and> (\<forall>j<i. \<not> float_gt (scale ! j) (Fin r))"
    unfolding train_bucket_id_def
    by (rule py_min_filter_upt)
next
  show "train_bucket_id [Fin 0.3, Fin 1.0] (Fin 0.5) = Inr 1"
    by (simp add: train_bucket_id_def py_min_def float_gt_def upt_2)
qed

lemma upt_3: "[0..<3] = [0, Suc 0, 2]"
  by (simp add: upt_rec numeral_eq_Suc)

theorem train_bucket_id_smallest_witness:
  "(0::real) \<le> 1/4 \<and> (1/4::real) < 1 \<and> [Fin (1/5), Fin (1/2), Fin 1] \<noteq> []
   \<and> last [Fin (1/5), Fin (1/2), Fin 1] = Fin 1
   \<and> train_bucket_id [Fin (1/5), Fin (1/2), Fin 1] (Fin (1/4)) = Inr 1
   \<and> float_gt ([Fin (1/5), Fin (1/2), Fin 1] ! 1) (Fin (1/4))
   \<and> \<not> float_gt ([Fin (1/5), Fin (1/2), Fin 1] ! 0) (Fin (1/4))"
proof -
  have h: "(0::real) \<le> 1/4" "(1/4::real) < 1" "[Fin (1/5), Fin (1/2), Fin 1] \<noteq> []"
    "last [Fin (1/5), Fin (1/2), Fin 1] = Fin 1" by simp_all
  show ?thesis
    using train_bucket_id_smallest [OF h]
    by (simp add: train_bucket_id_def py_min_def float_gt_def upt_3)
qed

lemma buckets_seq3seq_fst_le: "b < length buckets_seq3seq \<Longrightarrow> fst (buckets_seq3seq ! b) \<le> 20"
proof -
  assume "b < length buckets_seq3seq"
  then have "buckets_seq3seq ! b \<in> set buckets_seq3seq" by (rule nth_mem)
  then show ?thesis by (auto simp: buckets_seq3seq_def)
qed

text \<open>
  Claim C7. The decode driver of the hierarchical variant picks the bucket of smallest
  index whose source capacity is greater than the number of input tokens, and raises
  (no bucket is selected) when that number is at least the largest source capacity; with
  the buckets of the script that is 20.
\<close>

theorem decode_bucket_id_smallest:
  "(\<forall>b. b < length buckets \<and> fst (buckets ! b) > length token_ids
          \<and> (\<forall>j<b. \<not> fst (buckets ! j) > length token_ids)
        \<longrightarrow> decode_bucket_id buckets token_ids = Inr b)
   \<and> (buckets \<noteq> [] \<and> length token_ids \<ge> Max (set (map fst buckets))
        \<longrightarrow> decode_bucket_id buckets token_ids = Inl ValueError)
   \<and> (length token_ids \<ge> 20 \<longrightarrow> decode_bucket_id buckets_seq3seq token_ids = Inl ValueError)
   \<and> (length token_ids < 20 \<longrightarrow>
        (\<exists>b. decode_bucket_id buckets_seq3seq token_ids = Inr b \<and> b < 6
             \<and> fst (buckets_seq3seq ! b) > length token_ids
             \<and> (\<forall>j<b. \<not> fst (buckets_seq3seq ! j) > length token_ids)))"
proof (intro conjI allI impI)
  fix b
  assume b: "b < length buckets \<and> fst (buckets ! b) > length token_ids
          \<and> (\<forall>j<b. \<not> fst (buckets ! j) > length token_ids)"
  then show "decode_bucket_id buckets token_ids = Inr b"
    unfolding decode_bucket_id_def by (intro py_min_filter_upt_least) blast+
next
  assume a: "buckets \<noteq> [] \<and> length token_ids \<ge> Max (set (map fst buckets))"
  have "\<forall>b<length buckets. \<not> fst (buckets ! b) > length token_ids"
  proof (intro allI impI)
    fix b assume "b < length buckets"
    then have "fst (buckets ! b) \<in> set (map fst buckets)" by simp
    then have "fst (buckets ! b) \<le> Max (set (map fst buckets))" by (intro Max_ge) auto
    with a show "\<not> fst (buckets ! b) > length token_ids" by simp
  qed
  then show "decode_bucket_id buckets token_ids = Inl ValueError"
    unfolding decode_bucket_id_def by (rule py_min_filter_upt_none)
next
  assume "length token_ids \<ge> 20"
  then have "\<forall>b<length buckets_seq3seq. \<not> fst (buckets_seq3seq ! b) > length token_ids"
    using buckets_seq3seq_fst_le by fastforce
  then show "decode_bucket_id buckets_seq3seq token_ids = Inl ValueError"
    unfolding decode_bucket_id_def by (rule py_min_filter_upt_none)
next
  assume "length token_ids < 20"
  then have "5 < length buckets_seq3seq" "fst (buckets_seq3seq ! 5) > length token_ids"
    by (simp_all add: buckets_seq3seq_def)
  then have "\<exists>k. py_min (filter (\<lambda>b. fst (buckets_seq3seq ! b) > length token_ids) [0..<length buckets_seq3seq]) = Inr k
      \<and> k < length buckets_seq3seq \<and> fst (buckets_seq3seq ! k) > length token_ids
      \<and> (\<forall>j<k. \<not> fst (buckets_seq3seq ! j) > length token_ids)"
    by (rule py_min_filter_upt)
  moreover have "length buckets_seq3seq = 6" by (simp add: buckets_seq3seq_def)
  ultimately show "\<exists>b. decode_bucket_id buckets_seq3seq token_ids = Inr b \<and> b < 6
             \<and> fst (buckets_seq3seq ! b) > length token_ids
             \<and> (\<forall>j<b. \<not> fst (buckets_seq3seq ! j) > length token_ids)"
    by (simp add: decode_bucket_id_def)
qed

theorem decode_bucket_id_smallest_witness:
  "decode_bucket_id buckets_seq3seq [11, 12, 13, 14, 15] = Inr 2
   \<and> decode_bucket_id buckets_seq3seq (replicate 20 7) = Inl ValueError
   \<and> decode_bucket_id [(3, 9), (2, 9)] [1, 1, 1] = Inl ValueError"
proof -
  have a: "decode_bucket_id buckets_seq3seq [11, 12, 13, 14, 15] = Inr 2"
    using decode_bucket_id_smallest [of buckets_seq3seq "[11, 12, 13, 14, 15]"]
    by (simp add: buckets_seq3seq_def less_Suc_eq numeral_eq_Suc)
  have b: "decode_bucket_id buckets_seq3seq (replicate 20 7) = Inl ValueError"
    using decode_bucket_id_smallest [of buckets_seq3seq "replicate 20 7"]
    by simp
  have c: "decode_bucket_id [(3, 9), (2, 9)] [1, 1, 1] = Inl ValueError"
    using decode_bucket_id_smallest [of "[(3, 9), (2, 9)]" "[1, 1, 1]"]
    by simp
  from a b c show ?thesis by simp
qed



subsection \<open>Cutting the output at the end-of-sequence id\<close>

lemma py_index_first:
  "k < length xs \<Longrightarrow> xs ! k = x \<Longrightarrow> \<forall>j<k. xs ! j \<noteq> x \<Longrightarrow> py_index xs x = Inr k"
proof (induction xs arbitrary: k)
  case Nil
  then show ?case by simp
next
  case (Cons y ys)
  show ?case
  proof (cases k)
    case 0
    with Cons.prems show ?thesis by simp
  next
    case (Suc k')
    with Cons.prems have "y \<noteq> x" by auto
    moreover have "py_index ys x = Inr k'"
    proof (rule Cons.IH)
      show "k' < length ys" using Cons.prems(1) Suc by simp
      show "ys ! k' = x" using Cons.prems(2) Suc by simp
      show "\<forall>j<k'. ys ! j \<noteq> x" using Cons.prems(3) Suc by auto
    qed
    ultimately show ?thesis using Suc by simp
  qed
qed

lemma cut_at_eos_first:
  assumes "k < length outputs" "outputs ! k = eos" "\<forall>j<k. outputs ! j \<noteq> eos"
  shows "cut_at_eos eos outputs = Inr (take k outputs)"
proof -
  have "eos \<in> set outputs" using assms(1,2) nth_mem by blast
  moreover have "py_index outputs eos = Inr k" using assms by (rule py_index_first)
  ultimately show ?thesis by (simp add: cut_at_eos_def)
qed

lemma cut_at_eos_absent: "eos \<notin> set outputs \<Longrightarrow> cut_at_eos eos outputs = Inr outputs"
  by (simp add: cut_at_eos_def)

text \<open>
  The hierarchical variant. When the bucket is found and the forward step succeeds, the
  decode driver returns the greedy outputs cut at the first end-of-sequence id: if that id
  first occurs at position \<open>k\<close> (counted from 0) the result is the first \<open>k\<close> outputs,
  exactly \<open>k\<close> tokens; outputs without the id are returned unchanged.
\<close>

theorem decode_cut_at_first_eos:
  assumes "decode_bucket_id buckets token_ids = Inr b"
    and "step b token_ids = Inr output_logits"
    and "outputs = map argmax output_logits"
  shows "(k < length outputs \<and> outputs ! k = eos \<and> (\<forall>j<k. outputs ! j \<noteq> eos)
            \<longrightarrow> decode_article buckets eos step argmax token_ids = Inr (take k outputs)
                \<and> length (take k outputs) = k)
         \<and> (eos \<notin> set outputs
            \<longrightarrow> decode_article buckets eos step argmax token_ids = Inr outputs)"
proof -
  have d: "decode_article buckets eos step argmax token_ids = cut_at_eos eos outputs"
    using assms by (simp add: decode_article_def)
  show ?thesis
  proof (intro conjI impI)
    assume k: "k < length outputs \<and> outputs ! k = eos \<and> (\<forall>j<k. outputs ! j \<noteq> eos)"
    then have "cut_at_eos eos outputs = Inr (take k outputs)"
      by (intro cut_at_eos_first) blast+
    with d show "decode_article buckets eos step argmax token_ids = Inr (take k outputs)"
      by simp
    from k show "length (take k outputs) = k" by simp
  next
    assume "eos \<notin> set outputs"
    with d show "decode_article buckets eos step argmax token_ids = Inr outputs"
      by (simp add: cut_at_eos_absent)
  qed
qed

theorem decode_cut_at_first_eos_witness:
  "decode_article buckets_seq3seq 2 (\<lambda>b ids. Inr [5, 9, 2, 7, 2]) id [11, 12, 13] = Inr [5, 9]
   \<and> decode_article buckets_seq3seq 2 (\<lambda>b ids. Inr [5, 9, 4]) id [11, 12, 13] = Inr [5, 9, 4]"
proof -
  have b: "decode_bucket_id buckets_seq3seq [11, 12, 13] = Inr 1"
    by (simp add: decode_bucket_id_def buckets_seq3seq_def py_min_def upt_rec numeral_eq_Suc)
  have s1: "(\<lambda>b ids. Inr [5, 9, 2, 7, 2 :: int]) (1::nat) [11, 12, 13 :: int]
              = (Inr [5, 9, 2, 7, 2] :: py_error + int list)" by simp
  have s2: "(\<lambda>b ids. Inr [5, 9, 4 :: int]) (1::nat) [11, 12, 13 :: int]
              = (Inr [5, 9, 4] :: py_error + int list)" by simp
  have o1: "[5, 9, 2, 7, 2 :: int] = map id [5, 9, 2, 7, 2]" by simp
  have o2: "[5, 9, 4 :: int] = map id [5, 9, 4]" by simp
  have "decode_article buckets_seq3seq 2 (\<lambda>b ids. Inr [5, 9, 2, 7, 2]) id [11, 12, 13] = Inr [5, 9]"
    using decode_cut_at_first_eos [OF b s1 o1, of 2 2] by (simp add: less_Suc_eq numeral_eq_Suc)
  moreover have "decode_article buckets_seq3seq 2 (\<lambda>b ids. Inr [5, 9, 4]) id [11, 12, 13] = Inr [5, 9, 4]"
    using decode_cut_at_first_eos [OF b s2 o2, of 0 2] by simp
  ultimately show ?thesis by simp
qed

subsection \<open>Restoring or initialising the parameters\<close>

text \<open>
  Claim C8. \<^verbatim>\<open>create_model\<close> restores the parameters from the recorded checkpoint when
  the directory has a checkpoint state and the file it names is present, and the result
  is then that of the restore. In every other case (no checkpoint state, or the file is
  absent) it takes freshly initialised parameters and returns normally: the missing
  checkpoint raises nothing by itself.
\<close>

theorem create_model_restore_iff:
  "(get_checkpoint_state train_dir = Some ckpt \<and> exists (model_checkpoint_path ckpt) \<longrightarrow>
      (\<forall>p. restore (model_checkpoint_path ckpt) = Inr p \<longrightarrow>
         create_model get_checkpoint_state exists restore initialize train_dir
           = Inr (''Reading model parameters from '' @ model_checkpoint_path ckpt, p))
      \<and> (\<forall>e. restore (model_checkpoint_path ckpt) = Inl e \<longrightarrow>
         create_model get_checkpoint_state exists restore initialize train_dir = Inl e))
   \<and> (get_checkpoint_state train_dir = None
        \<or> (\<exists>c. get_checkpoint_state train_dir = Some c \<and> \<not> exists (model_checkpoint_path c)) \<longrightarrow>
      (\<forall>p. initialize = Inr p \<longrightarrow>
         create_model get_checkpoint_state exists restore initialize train_dir
           = Inr (''Created model with fresh parameters.'', p))
      \<and> (\<forall>e. initialize = Inl e \<longrightarrow>
         create_model get_checkpoint_state exists restore initialize train_dir = Inl e))"
  by (auto simp: create_model_def Let_def split: option.splits sum.splits)

theorem create_model_restore_iff_witness:
  "create_model (\<lambda>d. if d = ''/tmp'' then Some \<lparr>model_checkpoint_path = ''/tmp/translate.ckpt-200''\<rparr> else None)
       (\<lambda>p. p = ''/tmp/translate.ckpt-200'') (\<lambda>p. Inr (length p)) (Inr 0) ''/tmp''
     = Inr (''Reading model parameters from /tmp/translate.ckpt-200'', 23)
   \<and> create_model (\<lambda>d. None) (\<lambda>p. True) (\<lambda>p. Inr (length p)) (Inr 0) ''/tmp''
     = Inr (''Created model with fresh parameters.'', 0)
   \<and> create_model (\<lambda>d. Some \<lparr>model_checkpoint_path = ''/tmp/translate.ckpt-200''\<rparr>)
       (\<lambda>p. False) (\<lambda>p. Inr (length p)) (Inr 0) ''/tmp''
     = Inr (''Created model with fresh parameters.'', 0)"
proof -
  have a: "create_model (\<lambda>d. if d = ''/tmp'' then Some \<lparr>model_checkpoint_path = ''/tmp/translate.ckpt-200''\<rparr> else None)
       (\<lambda>p. p = ''/tmp/translate.ckpt-200'') (\<lambda>p. Inr (length p)) (Inr 0) ''/tmp''
     = Inr (''Reading model parameters from /tmp/translate.ckpt-200'', 23)"
    using create_model_restore_iff
      [of "\<lambda>d. if d = ''/tmp'' then Some \<lparr>model_checkpoint_path = ''/tmp/translate.ckpt-200''\<rparr> else None"
          "''/tmp''" "\<lparr>model_checkpoint_path = ''/tmp/translate.ckpt-200''\<rparr>"
          "\<lambda>p. p = ''/tmp/translate.ckpt-200''" "\<lambda>p. Inr (length p)" "Inr 0"]
    by simp
  have b: "create_model (\<lambda>d. None) (\<lambda>p. True) (\<lambda>p. Inr (length p)) (Inr 0) ''/tmp''
     = Inr (''Created model with fresh parameters.'', 0)"
    using create_model_restore_iff
      [of "\<lambda>d. None" "''/tmp''" undefined "\<lambda>p. True" "\<lambda>p. Inr (length p)" "Inr 0"]
    by simp
  have c: "create_model (\<lambda>d. Some \<lparr>model_checkpoint_path = ''/tmp/translate.ckpt-200''\<rparr>)
       (\<lambda>p. False) (\<lambda>p. Inr (length p)) (Inr 0) ''/tmp''
     = Inr (''Created model with fresh parameters.'', 0)"
    using create_model_restore_iff
      [of "\<lambda>d. Some \<lparr>model_checkpoint_path = ''/tmp/translate.ckpt-200''\<rparr>" "''/tmp''" undefined
          "\<lambda>p. False" "\<lambda>p. Inr (length p)" "Inr 0"]
    by simp
  from a b c show ?thesis by simp
qed

subsection \<open>The checkpoint block of the training loop\<close>

lemma exp_300_le_dbl_max: "exp (300::real) \<le> dbl_max"
proof -
  have "exp (300::real) = exp (of_nat 300 * 1)" by simp
  also have "\<dots> = exp 1 ^ 300" by (simp only: exp_of_nat_mult)
  also have "\<dots> \<le> (4::real) ^ 300"
  proof (rule power_mono)
    have "exp (1::real) \<le> 3" by (rule exp_le)
    then show "exp (1::real) \<le> 4" by simp
    show "(0::real) \<le> exp 1" by simp
  qed
  also have "(4::real) ^ 300 = 2 ^ 600"
  proof -
    have "(4::real) = 2 ^ 2" by simp
    then have "(4::real) ^ 300 = (2 ^ 2) ^ 300" by simp
    also have "\<dots> = 2 ^ (2 * 300)" by (simp only: power_mult)
    finally show ?thesis by simp
  qed
  also have "(2::real) ^ 600 \<le> (2 ^ 53 - 1) * 2 ^ 971"
  proof -
    have "(2::real) ^ 600 \<le> 2 ^ 971" by (rule power_increasing) simp_all
    also have "\<dots> = 1 * 2 ^ 971" by simp
    also have "\<dots> \<le> (2 ^ 53 - 1) * 2 ^ 971"
      by (rule mult_right_mono) simp_all
    finally show ?thesis .
  qed
  finally show ?thesis by (simp only: dbl_max_def)
qed

lemma math_exp_below_300: "r < 300 \<Longrightarrow> math_exp (Fin r) = Inr (Fin (exp r))"
proof -
  assume "r < 300"
  then have "exp r \<le> exp 300" by simp
  with exp_300_le_dbl_max have "\<not> exp r > dbl_max" by linarith
  then show ?thesis by (simp add: math_exp_def)
qed

lemma perplexity_total: "\<exists>p. perplexity l = Inr p"
proof (cases l)
  case (Fin r)
  then show ?thesis by (simp add: perplexity_def math_exp_below_300)
qed (simp_all add: perplexity_def math_exp_def)

lemma length_3_list: "length ys = 3 \<Longrightarrow> \<exists>a b c. ys = [a, b, c]"
  by (auto simp: numeral_3_eq_3 length_Suc_conv)

lemma slice_last_3:
  assumes "length prev > 2"
  shows "\<exists>pre a b c. prev = pre @ [a, b, c] \<and> slice_last 3 prev = [a, b, c]"
proof -
  have "length (slice_last 3 prev) = 3" using assms by (simp add: slice_last_def)
  then obtain a b c where abc: "slice_last 3 prev = [a, b, c]"
    using length_3_list by blast
  have "prev = take (length prev - 3) prev @ slice_last 3 prev"
    by (simp add: slice_last_def)
  with abc show ?thesis by metis
qed





lemma train_checkpoint_unfold:
  assumes "perplexity (loss s) = Inr ppl" "no_improvement (previous_losses s) (loss s) = Inr d"
  shows "train_checkpoint decay_op lg s =
     Inr ([PrintStats (model s) (step_time s) ppl]
            @ (if lg then [WritePerplexityLog (model s) (step_time s) ppl] else [])
            @ (if d then [RunDecayOp] else [])
            @ [SaveCheckpoint (if d then decay_op (model s) else model s)],
          \<lparr>model = (if d then decay_op (model s) else model s), step_time = Fin 0, loss = Fin 0,
           previous_losses = previous_losses s @ [loss s]\<rparr>)"
  using assms by (simp add: train_checkpoint_def Let_def)




text \<open>
  Claim C6. The perplexity is \<open>exp loss\<close> for a loss below 300 (and 0 for a loss of
  minus infinity), and infinity for every other loss; computing it never raises, and the
  checkpoint block, which always returns, prints that value first.
\<close>

theorem perplexity_guarded:
  "(\<forall>r. r < 300 \<longrightarrow> perplexity (Fin r) = Inr (Fin (exp r)))
   \<and> perplexity NegInf = Inr (Fin 0)
   \<and> (\<not> float_lt l (Fin 300) \<longrightarrow> perplexity l = Inr PosInf)
   \<and> (\<exists>p. perplexity l = Inr p)
   \<and> (\<exists>p effects s'. perplexity (loss s) = Inr p
         \<and> train_checkpoint decay_op lg s = Inr (effects, s')
         \<and> hd effects = PrintStats (model s) (step_time s) p)"
proof (intro conjI allI impI)
  fix r :: real
  assume "r < 300"
  then show "perplexity (Fin r) = Inr (Fin (exp r))"
    by (simp add: perplexity_def math_exp_below_300)
next
  show "perplexity NegInf = Inr (Fin 0)"
    by (simp add: perplexity_def math_exp_def)
next
  assume "\<not> float_lt l (Fin 300)"
  then show "perplexity l = Inr PosInf" by (simp add: perplexity_def)
next
  show "\<exists>p. perplexity l = Inr p" by (rule perplexity_total)
next
  obtain ppl where ppl: "perplexity (loss s) = Inr ppl"
    using perplexity_total by blast
  obtain d where d: "no_improvement (previous_losses s) (loss s) = Inr d"
  proof (cases "length (previous_losses s) > 2")
    case True
    then obtain pre a b c where "slice_last 3 (previous_losses s) = [a, b, c]"
      using slice_last_3 by blast
    with True that show ?thesis by (simp add: no_improvement_def py_max_def)
  next
    case False
    with that show ?thesis by (simp add: no_improvement_def)
  qed
  show "\<exists>p effects s'. perplexity (loss s) = Inr p
         \<and> train_checkpoint decay_op lg s = Inr (effects, s')
         \<and> hd effects = PrintStats (model s) (step_time s) p"
    using train_checkpoint_unfold [OF ppl d, of decay_op lg] ppl by simp
qed

theorem perplexity_guarded_witness:
  "perplexity (Fin 0) = Inr (Fin 1)
   \<and> perplexity (Fin 300) = Inr PosInf
   \<and> perplexity NaN = Inr PosInf"
proof -
  let ?s = "\<lparr>model = (), step_time = Fin 0, loss = Fin 0, previous_losses = []\<rparr>"
  have "\<forall>r<300. perplexity (Fin r) = Inr (Fin (exp r))"
    using perplexity_guarded [of "Fin 0" ?s id False] by (rule conjunct1)
  then have a: "perplexity (Fin 0) = Inr (Fin 1)" by simp
  have b: "perplexity (Fin 300) = Inr PosInf"
    using perplexity_guarded [of "Fin 300" ?s id False] by simp
  have c: "perplexity NaN = Inr PosInf"
    using perplexity_guarded [of NaN ?s id False] by simp
  from a b c show ?thesis by simp
qed

subsection \<open>The loader of the flat variant\<close>

lemma py_ints_length: "py_ints xs = Inr ns \<Longrightarrow> length ns = length xs"
  by (induction xs arbitrary: ns) (auto split: sum.splits)


lemma slice_to_nonneg: "0 \<le> n \<Longrightarrow> slice_to n xs = take (nat n) xs"
  by (simp add: slice_to_def)

lemma line_ids_seq2seq_Inr:
  assumes "0 \<le> truncate_in" "0 \<le> truncate_out"
    and "line_ids_seq2seq eos truncate_in truncate_out source target = Inr ex"
  shows "\<exists>source_ids target_ids.
           py_ints (take (nat truncate_in) (py_split source)) = Inr source_ids
           \<and> py_ints (take (nat truncate_out) (py_split target)) = Inr target_ids
           \<and> ex = (source_ids, target_ids @ [eos])"
  using assms by (auto simp: line_ids_seq2seq_def slice_to_nonneg split: sum.splits)

lemma read_loop_seq2seq_result:
  "read_loop_seq2seq eos ms tin tout ss ts c (b0 # bs) = Inr ds' \<Longrightarrow>
   \<exists>exs. ds' = (b0 @ exs) # bs
         \<and> length exs \<le> min (length ss) (length ts)
         \<and> (\<forall>i<length exs. line_ids_seq2seq eos tin tout (ss ! i) (ts ! i) = Inr (exs ! i))
         \<and> (ms = None \<longrightarrow> length exs = min (length ss) (length ts))"
proof (induction ss arbitrary: ts c b0 ds')
  case Nil
  then show ?case by simp
next
  case (Cons s ss)
  show ?case
  proof (cases ts)
    case Nil
    with Cons.prems show ?thesis by simp
  next
    case (Cons t ts')
    note ts = this
    show ?thesis
    proof (cases "within_limit ms c")
      case False
      then have "ms \<noteq> None" by (cases ms) (simp_all add: within_limit_def)
      moreover have "ds' = b0 # bs" using Cons.prems ts False by simp
      ultimately show ?thesis by auto
    next
      case True
      then obtain ex where ex: "line_ids_seq2seq eos tin tout s t = Inr ex"
        and rec: "read_loop_seq2seq eos ms tin tout ss ts' (c + 1) ((b0 @ [ex]) # bs) = Inr ds'"
        using Cons.prems ts by (auto split: sum.splits)
      from Cons.IH [OF rec] obtain exs where exs: "ds' = ((b0 @ [ex]) @ exs) # bs"
        "length exs \<le> min (length ss) (length ts')"
        "\<forall>i<length exs. line_ids_seq2seq eos tin tout (ss ! i) (ts' ! i) = Inr (exs ! i)"
        "ms = None \<longrightarrow> length exs = min (length ss) (length ts')" by blast
      have "\<forall>i<length (ex # exs).
              line_ids_seq2seq eos tin tout ((s # ss) ! i) (ts ! i) = Inr ((ex # exs) ! i)"
      proof (intro allI impI)
        fix i assume "i < length (ex # exs)"
        then show "line_ids_seq2seq eos tin tout ((s # ss) ! i) (ts ! i) = Inr ((ex # exs) ! i)"
          using ex exs(3) ts by (cases i) auto
      qed
      moreover have "ds' = (b0 @ (ex # exs)) # bs" using exs(1) by simp
      moreover have "length (ex # exs) \<le> min (length (s # ss)) (length ts)"
        using exs(2) ts by simp
      moreover have "ms = None \<longrightarrow> length (ex # exs) = min (length (s # ss)) (length ts)"
        using exs(4) ts by simp
      ultimately show ?thesis by blast
    qed
  qed
qed





subsection \<open>The loader of the hierarchical variant\<close>

lemma buckets_descending_rev: "buckets_descending buckets = rev (enumerate 0 buckets)"
proof -
  have "sorted (map fst (enumerate 0 buckets))" by simp
  then have "sort_key fst (enumerate 0 buckets) = enumerate 0 buckets"
    by (rule sort_key_id_if_sorted)
  then show ?thesis by (simp add: buckets_descending_def)
qed

lemma rev_enumerate_snoc:
  "rev (enumerate 0 (bs @ [x])) = (length bs, x) # rev (enumerate 0 bs)"
  by (simp add: enumerate_append_eq)

lemma first_overflowed_snoc:
  "first_overflowed (rev (enumerate 0 (bs @ [(ssz, tsz)]))) ns nt =
     (if ns > ssz \<and> nt < tsz then Some (length bs, ssz)
      else first_overflowed (rev (enumerate 0 bs)) ns nt)"
  by (simp add: rev_enumerate_snoc)

lemma first_overflowed_None:
  "first_overflowed (rev (enumerate 0 bs)) ns nt = None \<longleftrightarrow>
     (\<forall>b<length bs. \<not> (ns > fst (bs ! b) \<and> nt < snd (bs ! b)))"
proof (induction bs rule: rev_induct)
  case Nil
  then show ?case by simp
next
  case (snoc x bs)
  obtain ssz tsz where x: "x = (ssz, tsz)" by (cases x)
  show ?case
  proof (cases "ns > ssz \<and> nt < tsz")
    case True
    then have "first_overflowed (rev (enumerate 0 (bs @ [x]))) ns nt \<noteq> None"
      by (simp add: rev_enumerate_snoc x)
    moreover have "\<not> (\<forall>b<length (bs @ [x]).
                       \<not> (ns > fst ((bs @ [x]) ! b) \<and> nt < snd ((bs @ [x]) ! b)))"
    proof
      assume a: "\<forall>b<length (bs @ [x]).
                       \<not> (ns > fst ((bs @ [x]) ! b) \<and> nt < snd ((bs @ [x]) ! b))"
      have "length bs < length (bs @ [x])" by simp
      with a have "\<not> (ns > fst ((bs @ [x]) ! length bs) \<and> nt < snd ((bs @ [x]) ! length bs))"
        by blast
      with True x show False by simp
    qed
    ultimately show ?thesis by blast
  next
    case False
    have "first_overflowed (rev (enumerate 0 (bs @ [x]))) ns nt
                 = first_overflowed (rev (enumerate 0 bs)) ns nt"
      unfolding x first_overflowed_snoc using False by (rule if_not_P)
    moreover have "(\<forall>b<length (bs @ [x]).
                       \<not> (ns > fst ((bs @ [x]) ! b) \<and> nt < snd ((bs @ [x]) ! b)))
                   \<longleftrightarrow> (\<forall>b<length bs. \<not> (ns > fst (bs ! b) \<and> nt < snd (bs ! b)))"
      using False x by (auto simp: nth_append less_Suc_eq)
    ultimately show ?thesis using snoc.IH by simp
  qed
qed

lemma first_overflowed_Some:
  "first_overflowed (rev (enumerate 0 bs)) ns nt = Some (b, sz) \<longleftrightarrow>
     b < length bs \<and> sz = fst (bs ! b) \<and> ns > fst (bs ! b) \<and> nt < snd (bs ! b)
     \<and> (\<forall>b'. b < b' \<and> b' < length bs \<longrightarrow> \<not> (ns > fst (bs ! b') \<and> nt < snd (bs ! b')))"
proof (induction bs rule: rev_induct)
  case Nil
  then show ?case by simp
next
  case (snoc x bs)
  obtain ssz tsz where x: "x = (ssz, tsz)" by (cases x)
  show ?case
  proof (cases "ns > ssz \<and> nt < tsz")
    case True
    then have l: "first_overflowed (rev (enumerate 0 (bs @ [x]))) ns nt = Some (length bs, ssz)"
      by (simp add: rev_enumerate_snoc x)
    show ?thesis
    proof
      assume "first_overflowed (rev (enumerate 0 (bs @ [x]))) ns nt = Some (b, sz)"
      with l have "b = length bs" "sz = ssz" by simp_all
      with True x show "b < length (bs @ [x]) \<and> sz = fst ((bs @ [x]) ! b)
          \<and> ns > fst ((bs @ [x]) ! b) \<and> nt < snd ((bs @ [x]) ! b)
          \<and> (\<forall>b'. b < b' \<and> b' < length (bs @ [x])
                 \<longrightarrow> \<not> (ns > fst ((bs @ [x]) ! b') \<and> nt < snd ((bs @ [x]) ! b')))"
        by simp
    next
      assume r: "b < length (bs @ [x]) \<and> sz = fst ((bs @ [x]) ! b)
          \<and> ns > fst ((bs @ [x]) ! b) \<and> nt < snd ((bs @ [x]) ! b)
          \<and> (\<forall>b'. b < b' \<and> b' < length (bs @ [x])
                 \<longrightarrow> \<not> (ns > fst ((bs @ [x]) ! b') \<and> nt < snd ((bs @ [x]) ! b')))"
      have "b = length bs"
      proof (rule ccontr)
        assume "b \<noteq> length bs"
        with r have "b < length bs" by simp
        then have "b < length bs \<and> length bs < length (bs @ [x])" by simp
        with r have "\<not> (ns > fst ((bs @ [x]) ! length bs) \<and> nt < snd ((bs @ [x]) ! length bs))"
          by blast
        with True x show False by simp
      qed
      with r x have "sz = ssz" by simp
      with l \<open>b = length bs\<close>
      show "first_overflowed (rev (enumerate 0 (bs @ [x]))) ns nt = Some (b, sz)" by simp
    qed
  next
    case False
    have l: "first_overflowed (rev (enumerate 0 (bs @ [x]))) ns nt
                 = first_overflowed (rev (enumerate 0 bs)) ns nt"
      unfolding x first_overflowed_snoc using False by (rule if_not_P)
    have "(b < length (bs @ [x]) \<and> sz = fst ((bs @ [x]) ! b)
          \<and> ns > fst ((bs @ [x]) ! b) \<and> nt < snd ((bs @ [x]) ! b)
          \<and> (\<forall>b'. b < b' \<and> b' < length (bs @ [x])
                 \<longrightarrow> \<not> (ns > fst ((bs @ [x]) ! b') \<and> nt < snd ((bs @ [x]) ! b'))))
        \<longleftrightarrow> (b < length bs \<and> sz = fst (bs ! b) \<and> ns > fst (bs ! b) \<and> nt < snd (bs ! b)
          \<and> (\<forall>b'. b < b' \<and> b' < length bs \<longrightarrow> \<not> (ns > fst (bs ! b') \<and> nt < snd (bs ! b'))))"
      (is "?L \<longleftrightarrow> ?R")
    proof
      assume L: ?L
      have "b \<noteq> length bs" using L False x by auto
      with L have b: "b < length bs" by simp
      with L have "sz = fst (bs ! b) \<and> ns > fst (bs ! b) \<and> nt < snd (bs ! b)"
        by (simp add: nth_append)
      moreover have "\<forall>b'. b < b' \<and> b' < length bs
                       \<longrightarrow> \<not> (ns > fst (bs ! b') \<and> nt < snd (bs ! b'))"
      proof (intro allI impI)
        fix b' assume b': "b < b' \<and> b' < length bs"
        then have "b < b' \<and> b' < length (bs @ [x])" by simp
        with L have "\<not> (ns > fst ((bs @ [x]) ! b') \<and> nt < snd ((bs @ [x]) ! b'))" by blast
        with b' show "\<not> (ns > fst (bs ! b') \<and> nt < snd (bs ! b'))" by (simp add: nth_append)
      qed
      ultimately show ?R using b by blast
    next
      assume R: ?R
      then have b: "b < length (bs @ [x])" by simp
      from R have "sz = fst ((bs @ [x]) ! b) \<and> ns > fst ((bs @ [x]) ! b)
                     \<and> nt < snd ((bs @ [x]) ! b)"
        by (simp add: nth_append)
      moreover have "\<forall>b'. b < b' \<and> b' < length (bs @ [x])
                 \<longrightarrow> \<not> (ns > fst ((bs @ [x]) ! b') \<and> nt < snd ((bs @ [x]) ! b'))"
      proof (intro allI impI)
        fix b' assume b': "b < b' \<and> b' < length (bs @ [x])"
        show "\<not> (ns > fst ((bs @ [x]) ! b') \<and> nt < snd ((bs @ [x]) ! b'))"
        proof (cases "b' = length bs")
          case True
          with False x show ?thesis by simp
        next
          case False
          with b' have "b < b' \<and> b' < length bs" by simp
          with R have "\<not> (ns > fst (bs ! b') \<and> nt < snd (bs ! b'))" by blast
          with \<open>b < b' \<and> b' < length bs\<close> show ?thesis by (simp add: nth_append)
        qed
      qed
      ultimately show ?L using b by blast
    qed
    with l snoc.IH show ?thesis by simp
  qed
qed


lemma put_in_bucket_Some:
  assumes "b < length buckets"
    and "length (fst ex) > fst (buckets ! b)" and "length (snd ex) < snd (buckets ! b)"
    and "\<forall>b'. b < b' \<and> b' < length buckets \<longrightarrow>
           \<not> (length (fst ex) > fst (buckets ! b') \<and> length (snd ex) < snd (buckets ! b'))"
  shows "put_in_bucket buckets ex data_set =
           data_set[b := data_set ! b @ [(take (fst (buckets ! b)) (fst ex), snd ex)]]"
proof -
  have "first_overflowed (rev (enumerate 0 buckets)) (length (fst ex)) (length (snd ex))
          = Some (b, fst (buckets ! b))"
    unfolding first_overflowed_Some using assms by blast
  then show ?thesis by (simp add: put_in_bucket_def buckets_descending_rev)
qed

lemma put_in_bucket_None:
  assumes "\<forall>b<length buckets.
             \<not> (length (fst ex) > fst (buckets ! b) \<and> length (snd ex) < snd (buckets ! b))"
  shows "put_in_bucket buckets ex data_set = data_set"
proof -
  have "first_overflowed (rev (enumerate 0 buckets)) (length (fst ex)) (length (snd ex)) = None"
    unfolding first_overflowed_None using assms by blast
  then show ?thesis by (simp add: put_in_bucket_def buckets_descending_rev)
qed

lemma buckets_seq3seq_bounds:
  assumes "b < length buckets_seq3seq"
  shows "1 \<le> fst (buckets_seq3seq ! b)" and "snd (buckets_seq3seq ! b) = 48"
proof -
  from assms have "buckets_seq3seq ! b \<in> set buckets_seq3seq" by (rule nth_mem)
  then show "1 \<le> fst (buckets_seq3seq ! b)" and "snd (buckets_seq3seq ! b) = 48"
    by (auto simp: buckets_seq3seq_def)
qed

lemma split_at_nonempty: "split_at sep cur s \<noteq> []"
  by (induction sep cur s rule: split_at.induct) auto

lemma source_sents_length: "source_sents xs = Inr ys \<Longrightarrow> length ys = length xs"
  by (induction xs arbitrary: ys) (auto split: sum.splits)

lemma line_ids_seq3seq_Inr:
  assumes "line_ids_seq3seq eos max_sent source target = Inr ex"
  shows "length (fst ex) \<ge> 1" and "length (snd ex) = length (py_split target) + 1"
    and "last (snd ex) = eos"
proof -
  let ?sep = "'' '' @ py_str eos @ '' ''"
  have sep: "?sep \<noteq> []" by simp
  from assms obtain sents target_ids where
    s: "source_sents (split_at ?sep [] source) = Inr sents"
    and t: "py_ints (py_split target) = Inr target_ids"
    and ex: "ex = (map (pad_sent max_sent) sents, target_ids @ [eos])"
    by (auto simp: line_ids_seq3seq_def py_split_sep_def split: sum.splits)
  have "length sents = length (split_at ?sep [] source)" using s by (rule source_sents_length)
  moreover have "length (split_at ?sep [] source) \<ge> 1"
    using split_at_nonempty [of ?sep "[]" source]
    by (cases "split_at ?sep [] source") simp_all
  ultimately show "length (fst ex) \<ge> 1" by (simp add: ex)
  show "length (snd ex) = length (py_split target) + 1"
    using py_ints_length [OF t] by (simp add: ex)
  show "last (snd ex) = eos" by (simp add: ex)
qed

text \<open>
  The bucketing of one article. It goes into the bucket of largest index whose source
  capacity is less than the number of sentences and whose target capacity is greater than
  the target length, end-of-sequence id included, cut to exactly that capacity; when no
  bucket qualifies nothing is stored, which with the buckets of the script is the case
  for one sentence and for a target of 48 or more ids.
\<close>

theorem put_in_bucket_largest_overflowed:
  "(\<forall>b. b < length buckets
        \<and> length (fst ex) > fst (buckets ! b) \<and> length (snd ex) < snd (buckets ! b)
        \<and> (\<forall>b'. b < b' \<and> b' < length buckets \<longrightarrow>
              \<not> (length (fst ex) > fst (buckets ! b') \<and> length (snd ex) < snd (buckets ! b')))
      \<longrightarrow> put_in_bucket buckets ex data_set =
            data_set[b := data_set ! b @ [(take (fst (buckets ! b)) (fst ex), snd ex)]]
          \<and> length (take (fst (buckets ! b)) (fst ex)) = fst (buckets ! b))
   \<and> ((\<forall>b<length buckets.
          \<not> (length (fst ex) > fst (buckets ! b) \<and> length (snd ex) < snd (buckets ! b)))
      \<longrightarrow> put_in_bucket buckets ex data_set = data_set)
   \<and> (length (fst ex) \<le> 1 \<or> length (snd ex) \<ge> 48
      \<longrightarrow> put_in_bucket buckets_seq3seq ex data_set = data_set)
   \<and> (line_ids_seq3seq eos max_sent source target = Inr ex
      \<longrightarrow> length (fst ex) \<ge> 1 \<and> length (snd ex) = length (py_split target) + 1
          \<and> last (snd ex) = eos)"
proof (intro conjI allI impI)
  fix b
  assume b: "b < length buckets
        \<and> length (fst ex) > fst (buckets ! b) \<and> length (snd ex) < snd (buckets ! b)
        \<and> (\<forall>b'. b < b' \<and> b' < length buckets \<longrightarrow>
              \<not> (length (fst ex) > fst (buckets ! b') \<and> length (snd ex) < snd (buckets ! b')))"
  then show "put_in_bucket buckets ex data_set =
            data_set[b := data_set ! b @ [(take (fst (buckets ! b)) (fst ex), snd ex)]]"
    by (intro put_in_bucket_Some) blast+
  from b show "length (take (fst (buckets ! b)) (fst ex)) = fst (buckets ! b)" by simp
next
  assume "\<forall>b<length buckets.
          \<not> (length (fst ex) > fst (buckets ! b) \<and> length (snd ex) < snd (buckets ! b))"
  then show "put_in_bucket buckets ex data_set = data_set" by (rule put_in_bucket_None)
next
  assume a: "length (fst ex) \<le> 1 \<or> length (snd ex) \<ge> 48"
  have "\<forall>b<length buckets_seq3seq.
          \<not> (length (fst ex) > fst (buckets_seq3seq ! b)
              \<and> length (snd ex) < snd (buckets_seq3seq ! b))"
  proof (intro allI impI)
    fix b assume "b < length buckets_seq3seq"
    from buckets_seq3seq_bounds [OF this] a
    show "\<not> (length (fst ex) > fst (buckets_seq3seq ! b)
              \<and> length (snd ex) < snd (buckets_seq3seq ! b))" by auto
  qed
  then show "put_in_bucket buckets_seq3seq ex data_set = data_set" by (rule put_in_bucket_None)
next
  assume l: "line_ids_seq3seq eos max_sent source target = Inr ex"
  show "length (fst ex) \<ge> 1" using l by (rule line_ids_seq3seq_Inr)
  show "length (snd ex) = length (py_split target) + 1" using l by (rule line_ids_seq3seq_Inr)
  show "last (snd ex) = eos" using l by (rule line_ids_seq3seq_Inr)
qed


theorem put_in_bucket_largest_overflowed_witness:
  "put_in_bucket buckets_seq3seq ([[1], [2], [3], [4], [5], [6]], [7, 2]) [[], [], [], [], [], []]
     = [[], [([[1], [2], [3], [4], [5]], [7, 2])], [], [], [], []]
   \<and> put_in_bucket buckets_seq3seq ([[1]], [7, 2]) [[], [], [], [], [], []]
     = [[], [], [], [], [], []]
   \<and> line_ids_seq3seq 2 3 ''4 5 2 6\<newline>'' ''7 8\<newline>'' = Inr ([[2, 4, 5, 0], [1, 6, 0, 0]], [7, 8, 2])
   \<and> length (fst ([[2, 4, 5, 0], [1, 6, 0, 0 :: int]], [7, 8, 2 :: int])) \<ge> 1"
proof -
  let ?ex = "([[1], [2], [3], [4], [5], [6 :: int]], [7, 2 :: int])"
  let ?ds = "[[], [], [], [], [], []] :: article_example list list"
  have later: "\<forall>b'. 1 < b' \<and> b' < length buckets_seq3seq \<longrightarrow>
          \<not> (length (fst ?ex) > fst (buckets_seq3seq ! b')
              \<and> length (snd ?ex) < snd (buckets_seq3seq ! b'))"
  proof (intro allI impI)
    fix b' :: nat assume "1 < b' \<and> b' < length buckets_seq3seq"
    then have "b' = 2 \<or> b' = 3 \<or> b' = 4 \<or> b' = 5"
      by (auto simp: buckets_seq3seq_def)
    then show "\<not> (length (fst ?ex) > fst (buckets_seq3seq ! b')
              \<and> length (snd ?ex) < snd (buckets_seq3seq ! b'))"
      by (auto simp: buckets_seq3seq_def)
  qed
  have prem: "1 < length buckets_seq3seq
        \<and> length (fst ?ex) > fst (buckets_seq3seq ! 1)
        \<and> length (snd ?ex) < snd (buckets_seq3seq ! 1)
        \<and> (\<forall>b'. 1 < b' \<and> b' < length buckets_seq3seq \<longrightarrow>
              \<not> (length (fst ?ex) > fst (buckets_seq3seq ! b')
                  \<and> length (snd ?ex) < snd (buckets_seq3seq ! b')))"
    using later by (simp add: buckets_seq3seq_def)
  have "put_in_bucket buckets_seq3seq ?ex ?ds =
          ?ds[1 := ?ds ! 1 @ [(take (fst (buckets_seq3seq ! 1)) (fst ?ex), snd ?ex)]]"
    using put_in_bucket_largest_overflowed [of buckets_seq3seq ?ex ?ds] prem by blast
  then have a: "put_in_bucket buckets_seq3seq ?ex ?ds
     = [[], [([[1], [2], [3], [4], [5]], [7, 2])], [], [], [], []]"
    by (simp add: buckets_seq3seq_def)
  have b: "put_in_bucket buckets_seq3seq ([[1]], [7, 2]) ?ds = ?ds"
    using put_in_bucket_largest_overflowed [of buckets_seq3seq "([[1]], [7, 2])" ?ds]
    by simp
  have c: "line_ids_seq3seq 2 3 ''4 5 2 6\<newline>'' ''7 8\<newline>''
             = Inr ([[2, 4, 5, 0], [1, 6, 0, 0]], [7, 8, 2])"
    by (simp add: line_ids_seq3seq_def py_split_sep_def py_str_def str_nat.simps digit_char_def
        py_split_def is_space_def py_int_def digit_val_def pad_sent_def slice_to_def
        py_repeat_def numeral_2_eq_2)
  have d: "length (fst ([[2, 4, 5, 0], [1, 6, 0, 0 :: int]], [7, 8, 2 :: int])) \<ge> 1"
    using put_in_bucket_largest_overflowed
      [of buckets_seq3seq "([[2, 4, 5, 0], [1, 6, 0, 0]], [7, 8, 2])" ?ds 2 3
          "''4 5 2 6\<newline>''" "''7 8\<newline>''"] c
    by blast
  from a b c d show ?thesis by blast
qed

subsection \<open>What the loaders store\<close>

lemma put_in_bucket_nth:
  assumes "length data_set = length buckets" and "b < length buckets"
  shows "length (put_in_bucket buckets ex data_set) = length buckets"
    and "put_in_bucket buckets ex data_set ! b =
           data_set ! b @
             map (\<lambda>e. (take (fst (buckets ! b)) (fst e), snd e))
               (filter (\<lambda>e. map_option fst (first_overflowed (buckets_descending buckets)
                                (length (fst e)) (length (snd e))) = Some b) [ex])"
proof -
  let ?r = "first_overflowed (buckets_descending buckets) (length (fst ex)) (length (snd ex))"
  show "length (put_in_bucket buckets ex data_set) = length buckets"
    using assms(1) by (simp add: put_in_bucket_def split: option.splits)
  show "put_in_bucket buckets ex data_set ! b =
           data_set ! b @
             map (\<lambda>e. (take (fst (buckets ! b)) (fst e), snd e))
               (filter (\<lambda>e. map_option fst (first_overflowed (buckets_descending buckets)
                                (length (fst e)) (length (snd e))) = Some b) [ex])"
  proof (cases ?r)
    case None
    then show ?thesis by (simp add: put_in_bucket_def)
  next
    case (Some p)
    obtain b0 sz where p: "p = (b0, sz)" by (cases p)
    from Some p have "first_overflowed (rev (enumerate 0 buckets))
                        (length (fst ex)) (length (snd ex)) = Some (b0, sz)"
      by (simp add: buckets_descending_rev)
    then have b0: "b0 < length buckets" "sz = fst (buckets ! b0)"
      unfolding first_overflowed_Some by blast+
    have put: "put_in_bucket buckets ex data_set =
                 data_set[b0 := data_set ! b0 @ [(take sz (fst ex), snd ex)]]"
      using Some p by (simp add: put_in_bucket_def)
    show ?thesis
    proof (cases "b0 = b")
      case True
      with put b0 assms Some p show ?thesis by simp
    next
      case False
      with put b0 assms Some p show ?thesis by simp
    qed
  qed
qed

lemma read_loop_seq3seq_result:
  "read_loop_seq3seq buckets eos max_sent ms ss ts c ds = Inr ds' \<Longrightarrow>
   length ds = length buckets \<Longrightarrow>
   \<exists>exs. length exs \<le> min (length ss) (length ts)
         \<and> (\<forall>i<length exs. line_ids_seq3seq eos max_sent (ss ! i) (ts ! i) = Inr (exs ! i))
         \<and> length ds' = length buckets
         \<and> (\<forall>b<length buckets.
               ds' ! b = ds ! b @
                 map (\<lambda>e. (take (fst (buckets ! b)) (fst e), snd e))
                   (filter (\<lambda>e. map_option fst (first_overflowed (buckets_descending buckets)
                                    (length (fst e)) (length (snd e))) = Some b) exs))"
proof (induction ss arbitrary: ts c ds ds')
  case Nil
  then have "ds' = ds" by simp
  with Nil.prems(2) show ?case by (intro exI [of _ "[]"]) simp
next
  case (Cons s ss)
  show ?case
  proof (cases ts)
    case Nil
    with Cons.prems have "ds' = ds" by simp
    with Cons.prems(2) show ?thesis by (intro exI [of _ "[]"]) simp
  next
    case (Cons t ts')
    note ts = this
    show ?thesis
    proof (cases "within_limit ms c")
      case False
      with Cons.prems ts have "ds' = ds" by simp
      with Cons.prems(2) show ?thesis by (intro exI [of _ "[]"]) simp
    next
      case True
      then obtain ex where ex: "line_ids_seq3seq eos max_sent s t = Inr ex"
        and rec: "read_loop_seq3seq buckets eos max_sent ms ss ts' (c + 1)
                    (put_in_bucket buckets ex ds) = Inr ds'"
        using Cons.prems(1) ts by (auto split: sum.splits)
      have len: "length (put_in_bucket buckets ex ds) = length buckets"
        using Cons.prems(2) by (simp add: put_in_bucket_def split: option.splits)
      from Cons.IH [OF rec len] obtain exs where exs:
        "length exs \<le> min (length ss) (length ts')"
        "\<forall>i<length exs. line_ids_seq3seq eos max_sent (ss ! i) (ts' ! i) = Inr (exs ! i)"
        "length ds' = length buckets"
        "\<forall>b<length buckets.
               ds' ! b = put_in_bucket buckets ex ds ! b @
                 map (\<lambda>e. (take (fst (buckets ! b)) (fst e), snd e))
                   (filter (\<lambda>e. map_option fst (first_overflowed (buckets_descending buckets)
                                    (length (fst e)) (length (snd e))) = Some b) exs)"
        by blast
      have 1: "length (ex # exs) \<le> min (length (s # ss)) (length ts)"
        using exs(1) ts by simp
      have 2: "\<forall>i<length (ex # exs).
                 line_ids_seq3seq eos max_sent ((s # ss) ! i) (ts ! i) = Inr ((ex # exs) ! i)"
      proof (intro allI impI)
        fix i assume "i < length (ex # exs)"
        then show "line_ids_seq3seq eos max_sent ((s # ss) ! i) (ts ! i) = Inr ((ex # exs) ! i)"
          using ex exs(2) ts by (cases i) auto
      qed
      have 3: "\<forall>b<length buckets.
               ds' ! b = ds ! b @
                 map (\<lambda>e. (take (fst (buckets ! b)) (fst e), snd e))
                   (filter (\<lambda>e. map_option fst (first_overflowed (buckets_descending buckets)
                                    (length (fst e)) (length (snd e))) = Some b) (ex # exs))"
      proof (intro allI impI)
        fix b assume b: "b < length buckets"
        let ?f = "\<lambda>e. (take (fst (buckets ! b)) (fst e), snd e)"
        let ?p = "\<lambda>e. map_option fst (first_overflowed (buckets_descending buckets)
                                    (length (fst e)) (length (snd e))) = Some b"
        have "ds' ! b = put_in_bucket buckets ex ds ! b @ map ?f (filter ?p exs)"
          using exs(4) b by blast
        also have "put_in_bucket buckets ex ds ! b = ds ! b @ map ?f (filter ?p [ex])"
          using Cons.prems(2) b by (rule put_in_bucket_nth)
        also have "(ds ! b @ map ?f (filter ?p [ex])) @ map ?f (filter ?p exs)
                     = ds ! b @ map ?f (filter ?p (ex # exs))"
          by simp
        finally show "ds' ! b = ds ! b @ map ?f (filter ?p (ex # exs))" .
      qed
      from 1 2 exs(3) 3 show ?thesis by blast
    qed
  qed
qed


lemma first_overflowed_fits:
  assumes "map_option fst (first_overflowed (buckets_descending buckets) ns nt) = Some b"
  shows "b < length buckets" and "ns > fst (buckets ! b)" and "nt < snd (buckets ! b)"
proof -
  from assms obtain sz where
    "first_overflowed (rev (enumerate 0 buckets)) ns nt = Some (b, sz)"
    by (auto simp: buckets_descending_rev)
  then have "b < length buckets \<and> ns > fst (buckets ! b) \<and> nt < snd (buckets ! b)"
    unfolding first_overflowed_Some by blast
  then show "b < length buckets" and "ns > fst (buckets ! b)" and "nt < snd (buckets ! b)"
    by blast+
qed

text \<open>
  Claim C1, as amended. In the hierarchical variant every stored example has exactly as
  many sentences as the source capacity of its bucket (the article is cut to the largest
  bucket it overflows) and a target shorter than the bucket's target capacity. In the flat
  variant, with the truncation lengths of the script, every example is in the only bucket
  and its source is at most as long as the source capacity. In both variants each bucket
  holds, in reading order, the examples of the line pairs assigned to it, and a line pair
  is assigned to at most one bucket.
\<close>

theorem bucketing_capacity:
  "(read_data_seq3seq buckets eos max_sent source_file target_file max_size = Inr data_set \<longrightarrow>
      (\<exists>exs. length exs \<le> min (length (readlines source_file)) (length (readlines target_file))
         \<and> (\<forall>i<length exs.
               line_ids_seq3seq eos max_sent (readlines source_file ! i) (readlines target_file ! i)
                 = Inr (exs ! i))
         \<and> length data_set = length buckets
         \<and> (\<forall>b<length buckets.
               data_set ! b =
                 map (\<lambda>e. (take (fst (buckets ! b)) (fst e), snd e))
                   (filter (\<lambda>e. map_option fst (first_overflowed (buckets_descending buckets)
                                    (length (fst e)) (length (snd e))) = Some b) exs)))
      \<and> (\<forall>b<length buckets. \<forall>e\<in>set (data_set ! b).
            length (fst e) = fst (buckets ! b) \<and> length (snd e) < snd (buckets ! b)))
   \<and> (read_data_seq2seq buckets_seq2seq eos source_file target_file max_size 200 48 = Inr flat_set
        \<longrightarrow>
      (\<exists>exs. flat_set = [exs]
         \<and> length exs \<le> min (length (readlines source_file)) (length (readlines target_file))
         \<and> (\<forall>i<length exs.
               line_ids_seq2seq eos 200 48 (readlines source_file ! i) (readlines target_file ! i)
                 = Inr (exs ! i))
         \<and> (\<forall>e\<in>set exs. length (fst e) \<le> fst (buckets_seq2seq ! 0))))"
proof (intro conjI impI)
  assume r: "read_data_seq3seq buckets eos max_sent source_file target_file max_size
               = Inr data_set"
  let ?ss = "readlines source_file" and ?ts = "readlines target_file"
  let ?f = "\<lambda>b e. (take (fst (buckets ! b)) (fst e), snd e)"
  let ?p = "\<lambda>b e. map_option fst (first_overflowed (buckets_descending buckets)
                                    (length (fst e)) (length (snd e))) = Some b"
  have loop: "read_loop_seq3seq buckets eos max_sent max_size ?ss ?ts 0
                (map (\<lambda>_. []) buckets) = Inr data_set"
    using r by (simp only: read_data_seq3seq_def)
  have len: "length (map (\<lambda>_. []) buckets) = length buckets" by simp
  from read_loop_seq3seq_result [OF loop len] obtain exs where exs:
    "length exs \<le> min (length ?ss) (length ?ts)"
    "\<forall>i<length exs. line_ids_seq3seq eos max_sent (?ss ! i) (?ts ! i) = Inr (exs ! i)"
    "length data_set = length buckets"
    "\<forall>b<length buckets.
       data_set ! b = map (\<lambda>_. []) buckets ! b @ map (?f b) (filter (?p b) exs)"
    by blast
  have nth: "\<forall>b<length buckets. data_set ! b = map (?f b) (filter (?p b) exs)"
  proof (intro allI impI)
    fix b assume b: "b < length buckets"
    with exs(4) have "data_set ! b = map (\<lambda>_. []) buckets ! b @ map (?f b) (filter (?p b) exs)"
      by blast
    with b show "data_set ! b = map (?f b) (filter (?p b) exs)" by simp
  qed
  from exs(1-3) nth
  show "\<exists>exs. length exs \<le> min (length ?ss) (length ?ts)
         \<and> (\<forall>i<length exs. line_ids_seq3seq eos max_sent (?ss ! i) (?ts ! i) = Inr (exs ! i))
         \<and> length data_set = length buckets
         \<and> (\<forall>b<length buckets. data_set ! b = map (?f b) (filter (?p b) exs))"
    by blast
  show "\<forall>b<length buckets. \<forall>e\<in>set (data_set ! b).
            length (fst e) = fst (buckets ! b) \<and> length (snd e) < snd (buckets ! b)"
  proof (intro allI impI ballI)
    fix b e assume b: "b < length buckets" and e: "e \<in> set (data_set ! b)"
    from nth b have "data_set ! b = map (?f b) (filter (?p b) exs)" by blast
    with e obtain e0 where e0: "e = ?f b e0" "?p b e0" by auto
    from first_overflowed_fits [OF e0(2)]
    have "length (fst e0) > fst (buckets ! b)" "length (snd e0) < snd (buckets ! b)"
      by blast+
    with e0(1) show "length (fst e) = fst (buckets ! b) \<and> length (snd e) < snd (buckets ! b)"
      by simp
  qed
next
  assume r: "read_data_seq2seq buckets_seq2seq eos source_file target_file max_size 200 48
               = Inr flat_set"
  let ?ss = "readlines source_file" and ?ts = "readlines target_file"
  have loop: "read_loop_seq2seq eos max_size 200 48 ?ss ?ts 0 ([] # []) = Inr flat_set"
    using r by (simp add: read_data_seq2seq_def buckets_seq2seq_def)
  from read_loop_seq2seq_result [OF loop] obtain exs where exs:
    "flat_set = ([] @ exs) # []"
    "length exs \<le> min (length ?ss) (length ?ts)"
    "\<forall>i<length exs. line_ids_seq2seq eos 200 48 (?ss ! i) (?ts ! i) = Inr (exs ! i)"
    by blast
  have cap: "\<forall>e\<in>set exs. length (fst e) \<le> fst (buckets_seq2seq ! 0)"
  proof
    fix e assume "e \<in> set exs"
    then obtain i where i: "i < length exs" "e = exs ! i" by (auto simp: in_set_conv_nth)
    with exs(3) have l: "line_ids_seq2seq eos 200 48 (?ss ! i) (?ts ! i) = Inr e" by simp
    have n: "(0::int) \<le> 200" "(0::int) \<le> 48" by simp_all
    from line_ids_seq2seq_Inr [OF n l] obtain source_ids target_ids where ids:
      "py_ints (take (nat 200) (py_split (?ss ! i))) = Inr source_ids"
      "e = (source_ids, target_ids @ [eos])" by blast
    have "length source_ids \<le> 200" using py_ints_length [OF ids(1)] by simp
    then show "length (fst e) \<le> fst (buckets_seq2seq ! 0)"
      by (simp add: ids(2) buckets_seq2seq_def)
  qed
  have "flat_set = [exs]" using exs(1) by simp
  with exs(2,3) cap
  show "\<exists>exs. flat_set = [exs]
         \<and> length exs \<le> min (length ?ss) (length ?ts)
         \<and> (\<forall>i<length exs. line_ids_seq2seq eos 200 48 (?ss ! i) (?ts ! i) = Inr (exs ! i))
         \<and> (\<forall>e\<in>set exs. length (fst e) \<le> fst (buckets_seq2seq ! 0))"
    by blast
qed

lemma read_data_seq3seq_example:
  "read_data_seq3seq buckets_seq3seq 2 3 ''4 5 2 6\<newline>'' ''7 8\<newline>'' None
     = Inr [[([[2, 4, 5, 0]], [7, 8, 2])], [], [], [], [], []]"
  by (simp add: read_data_seq3seq_def readlines_def within_limit_def line_ids_seq3seq_def
      py_split_sep_def py_str_def str_nat.simps digit_char_def py_split_def is_space_def
      py_int_def digit_val_def pad_sent_def slice_to_def py_repeat_def numeral_2_eq_2
      put_in_bucket_def buckets_descending_rev buckets_seq3seq_def)

theorem bucketing_capacity_witness:
  "read_data_seq3seq buckets_seq3seq 2 3 ''4 5 2 6\<newline>'' ''7 8\<newline>'' None
     = Inr [[([[2, 4, 5, 0]], [7, 8, 2])], [], [], [], [], []]
   \<and> read_data_seq2seq buckets_seq2seq 2 ''4 5 6\<newline>'' ''7 8\<newline>'' None 200 48
     = Inr [[([4, 5, 6], [7, 8, 2])]]
   \<and> length (fst ([[2, 4, 5, 0 :: int]], [7, 8, 2 :: int])) = fst (buckets_seq3seq ! 0)
   \<and> length (snd ([[2, 4, 5, 0 :: int]], [7, 8, 2 :: int])) < snd (buckets_seq3seq ! 0)
   \<and> length (fst ([4, 5, 6 :: int], [7, 8, 2 :: int])) \<le> fst (buckets_seq2seq ! 0)"
proof -
  have a: "read_data_seq3seq buckets_seq3seq 2 3 ''4 5 2 6\<newline>'' ''7 8\<newline>'' None
     = Inr [[([[2, 4, 5, 0]], [7, 8, 2])], [], [], [], [], []]"
    by (rule read_data_seq3seq_example)
  have b: "read_data_seq2seq buckets_seq2seq 2 ''4 5 6\<newline>'' ''7 8\<newline>'' None 200 48
     = Inr [[([4, 5, 6], [7, 8, 2])]]"
    by (simp add: read_data_seq2seq_def buckets_seq2seq_def readlines_def line_ids_seq2seq_def
        py_split_def is_space_def slice_to_def py_int_def digit_val_def within_limit_def)
  note t = bucketing_capacity
    [of buckets_seq3seq 2 3 "''4 5 2 6\<newline>''" "''7 8\<newline>''" None
        "[[([[2, 4, 5, 0]], [7, 8, 2])], [], [], [], [], []]"
        "[[([4, 5, 6], [7, 8, 2])]]"]
  have c: "\<forall>b<length buckets_seq3seq.
        \<forall>e\<in>set ([[([[2, 4, 5, 0 :: int]], [7, 8, 2 :: int])], [], [], [], [], []] ! b).
          length (fst e) = fst (buckets_seq3seq ! b) \<and> length (snd e) < snd (buckets_seq3seq ! b)"
    by (rule t [THEN conjunct1, THEN mp, OF a, THEN conjunct2])
  have "0 < length buckets_seq3seq" by (simp add: buckets_seq3seq_def)
  moreover have "([[2, 4, 5, 0 :: int]], [7, 8, 2 :: int])
                   \<in> set ([[([[2, 4, 5, 0]], [7, 8, 2])], [], [], [], [], []] ! 0)"
    by simp
  ultimately have c': "length (fst ([[2, 4, 5, 0 :: int]], [7, 8, 2 :: int]))
                          = fst (buckets_seq3seq ! 0)
       \<and> length (snd ([[2, 4, 5, 0 :: int]], [7, 8, 2 :: int])) < snd (buckets_seq3seq ! 0)"
    using c by blast
  note t2 = bucketing_capacity
    [of buckets_seq3seq 2 3 "''4 5 6\<newline>''" "''7 8\<newline>''" None
        "[[([[2, 4, 5, 0]], [7, 8, 2])], [], [], [], [], []]"
        "[[([4, 5, 6], [7, 8, 2])]]"]
  from t2 [THEN conjunct2, THEN mp, OF b] obtain exs where exs:
    "[[([4, 5, 6 :: int], [7, 8, 2 :: int])]] = [exs]"
    "\<forall>e\<in>set exs. length (fst e) \<le> fst (buckets_seq2seq ! 0)"
    by blast
  from exs(1) have "([4, 5, 6 :: int], [7, 8, 2 :: int]) \<in> set exs" by auto
  with exs(2) have d: "length (fst ([4, 5, 6 :: int], [7, 8, 2 :: int]))
                         \<le> fst (buckets_seq2seq ! 0)"
    by blast
  from a b c' d show ?thesis by (intro conjI) blast+
qed

text \<open>
  The claim as first stated asks for a source shorter than the capacity. An article of two
  sentences is stored in bucket 0, of source capacity 1, with one sentence.
\<close>

theorem bucketing_strict_capacity_counterexample:
  "read_data_seq3seq buckets_seq3seq 2 3 ''4 5 2 6\<newline>'' ''7 8\<newline>'' None
     = Inr [[([[2, 4, 5, 0]], [7, 8, 2])], [], [], [], [], []]
   \<and> \<not> length (fst ([[2, 4, 5, 0 :: int]], [7, 8, 2 :: int])) < fst (buckets_seq3seq ! 0)"
proof
  show "read_data_seq3seq buckets_seq3seq 2 3 ''4 5 2 6\<newline>'' ''7 8\<newline>'' None
     = Inr [[([[2, 4, 5, 0]], [7, 8, 2])], [], [], [], [], []]"
    by (rule read_data_seq3seq_example)
  show "\<not> length (fst ([[2, 4, 5, 0 :: int]], [7, 8, 2 :: int])) < fst (buckets_seq3seq ! 0)"
    by (simp add: buckets_seq3seq_def)
qed

lemma split_ws_ones:
  "split_ws [] (concat (replicate n ''1 '') @ rest) = replicate n ''1'' @ split_ws [] rest"
  by (induction n) (simp_all add: is_space_def)

lemma py_ints_ones: "py_ints (replicate n ''1'') = Inr (replicate n 1)"
  by (induction n) (simp_all add: py_int_def digit_val_def)

text \<open>
  In the flat variant the end-of-sequence id is appended after the cut to 48 tokens: a
  target line of 48 tokens gives 49 target ids, in the bucket of target size 48.
\<close>

lemma line_ids_seq2seq_long_target:
  "line_ids_seq2seq 2 200 48 ''4 5 6\<newline>'' (concat (replicate 48 ''1 '') @ ''\<newline>'')
     = Inr ([4, 5, 6], replicate 48 1 @ [2])
   \<and> length (replicate 48 (1 :: int) @ [2]) = 49
   \<and> snd (buckets_seq2seq ! 0) = 48"
proof -
  have t: "py_split (concat (replicate 48 ''1 '') @ ''\<newline>'') = replicate 48 ''1''"
    by (simp add: py_split_def split_ws_ones is_space_def)
  have s: "py_ints (slice_to 200 (py_split ''4 5 6\<newline>'')) = Inr [4, 5, 6]"
    by (simp add: py_split_def is_space_def slice_to_def py_int_def digit_val_def)
  have "py_ints (slice_to 48 (replicate 48 ''1'')) = Inr (replicate 48 1)"
    by (simp add: slice_to_def py_ints_ones)
  with t s show ?thesis
    by (simp add: line_ids_seq2seq_def buckets_seq2seq_def)
qed

subsection \<open>Every article read and bucketed\<close>

lemma within_limit_no_limit: "max_size = None \<or> max_size = Some 0 \<Longrightarrow> within_limit max_size c"
  by (auto simp: within_limit_def)

lemma read_loop_seq3seq_complete:
  "max_size = None \<or> max_size = Some 0 \<Longrightarrow>
   read_loop_seq3seq buckets eos max_sent max_size ss ts c ds = Inr ds' \<Longrightarrow>
   length ds = length buckets \<Longrightarrow>
   \<exists>exs. length exs = min (length ss) (length ts)
         \<and> (\<forall>i<length exs. line_ids_seq3seq eos max_sent (ss ! i) (ts ! i) = Inr (exs ! i))
         \<and> length ds' = length buckets
         \<and> (\<forall>b<length buckets.
               ds' ! b = ds ! b @
                 map (\<lambda>e. (take (fst (buckets ! b)) (fst e), snd e))
                   (filter (\<lambda>e. map_option fst (first_overflowed (buckets_descending buckets)
                                    (length (fst e)) (length (snd e))) = Some b) exs))"
proof (induction ss arbitrary: ts c ds ds')
  case Nil
  then have "ds' = ds" by simp
  with Nil.prems(3) show ?case by (intro exI [of _ "[]"]) simp
next
  case (Cons s ss)
  show ?case
  proof (cases ts)
    case Nil
    with Cons.prems have "ds' = ds" by simp
    with Cons.prems(3) Nil show ?thesis by (intro exI [of _ "[]"]) simp
  next
    case (Cons t ts')
    note ts = this
    have lim: "within_limit max_size c" using Cons.prems(1) by (rule within_limit_no_limit)
    then obtain ex where ex: "line_ids_seq3seq eos max_sent s t = Inr ex"
      and rec: "read_loop_seq3seq buckets eos max_sent max_size ss ts' (c + 1)
                  (put_in_bucket buckets ex ds) = Inr ds'"
      using Cons.prems(2) ts by (auto split: sum.splits)
    have len: "length (put_in_bucket buckets ex ds) = length buckets"
      using Cons.prems(3) by (simp add: put_in_bucket_def split: option.splits)
    from Cons.IH [OF Cons.prems(1) rec len] obtain exs where exs:
      "length exs = min (length ss) (length ts')"
      "\<forall>i<length exs. line_ids_seq3seq eos max_sent (ss ! i) (ts' ! i) = Inr (exs ! i)"
      "length ds' = length buckets"
      "\<forall>b<length buckets.
             ds' ! b = put_in_bucket buckets ex ds ! b @
               map (\<lambda>e. (take (fst (buckets ! b)) (fst e), snd e))
                 (filter (\<lambda>e. map_option fst (first_overflowed (buckets_descending buckets)
                                  (length (fst e)) (length (snd e))) = Some b) exs)"
      by blast
    have 1: "length (ex # exs) = min (length (s # ss)) (length ts)"
      using exs(1) ts by simp
    have 2: "\<forall>i<length (ex # exs).
               line_ids_seq3seq eos max_sent ((s # ss) ! i) (ts ! i) = Inr ((ex # exs) ! i)"
    proof (intro allI impI)
      fix i assume "i < length (ex # exs)"
      then show "line_ids_seq3seq eos max_sent ((s # ss) ! i) (ts ! i) = Inr ((ex # exs) ! i)"
        using ex exs(2) ts by (cases i) auto
    qed
    have 3: "\<forall>b<length buckets.
             ds' ! b = ds ! b @
               map (\<lambda>e. (take (fst (buckets ! b)) (fst e), snd e))
                 (filter (\<lambda>e. map_option fst (first_overflowed (buckets_descending buckets)
                                  (length (fst e)) (length (snd e))) = Some b) (ex # exs))"
    proof (intro allI impI)
      fix b assume b: "b < length buckets"
      let ?f = "\<lambda>e. (take (fst (buckets ! b)) (fst e), snd e)"
      let ?p = "\<lambda>e. map_option fst (first_overflowed (buckets_descending buckets)
                                  (length (fst e)) (length (snd e))) = Some b"
      have "ds' ! b = put_in_bucket buckets ex ds ! b @ map ?f (filter ?p exs)"
        using exs(4) b by blast
      also have "put_in_bucket buckets ex ds ! b = ds ! b @ map ?f (filter ?p [ex])"
        using Cons.prems(3) b by (rule put_in_bucket_nth)
      also have "(ds ! b @ map ?f (filter ?p [ex])) @ map ?f (filter ?p exs)
                   = ds ! b @ map ?f (filter ?p (ex # exs))"
        by simp
      finally show "ds' ! b = ds ! b @ map ?f (filter ?p (ex # exs))" .
    qed
    from 1 2 exs(3) 3 show ?thesis by blast
  qed
qed

lemma read_loop_seq3seq_returns:
  "max_size = None \<or> max_size = Some 0 \<Longrightarrow>
   \<forall>i<min (length ss) (length ts). \<exists>ex. line_ids_seq3seq eos max_sent (ss ! i) (ts ! i) = Inr ex \<Longrightarrow>
   \<exists>ds'. read_loop_seq3seq buckets eos max_sent max_size ss ts c ds = Inr ds'"
proof (induction ss arbitrary: ts c ds)
  case Nil
  then show ?case by simp
next
  case (Cons s ss)
  show ?case
  proof (cases ts)
    case Nil
    then show ?thesis by simp
  next
    case (Cons t ts')
    note ts = this
    have lim: "within_limit max_size c" using Cons.prems(1) by (rule within_limit_no_limit)
    have "0 < min (length (s # ss)) (length ts)" using ts by simp
    with Cons.prems(2) have "\<exists>ex. line_ids_seq3seq eos max_sent ((s # ss) ! 0) (ts ! 0) = Inr ex"
      by blast
    then obtain ex where ex: "line_ids_seq3seq eos max_sent s t = Inr ex" using ts by auto
    have rest: "\<forall>i<min (length ss) (length ts').
                  \<exists>ex. line_ids_seq3seq eos max_sent (ss ! i) (ts' ! i) = Inr ex"
    proof (intro allI impI)
      fix i assume "i < min (length ss) (length ts')"
      then have "Suc i < min (length (s # ss)) (length ts)" using ts by simp
      with Cons.prems(2)
      have "\<exists>ex. line_ids_seq3seq eos max_sent ((s # ss) ! Suc i) (ts ! Suc i) = Inr ex"
        by blast
      then show "\<exists>ex. line_ids_seq3seq eos max_sent (ss ! i) (ts' ! i) = Inr ex"
        using ts by simp
    qed
    from Cons.IH [OF Cons.prems(1) rest, of "c + 1" "put_in_bucket buckets ex ds"]
    obtain ds' where "read_loop_seq3seq buckets eos max_sent max_size ss ts' (c + 1)
                        (put_in_bucket buckets ex ds) = Inr ds'" by blast
    with lim ex ts show ?thesis by simp
  qed
qed

lemma first_overflowed_largest:
  "map_option fst (first_overflowed (buckets_descending buckets) ns nt) = Some b \<longleftrightarrow>
     b < length buckets \<and> ns > fst (buckets ! b) \<and> nt < snd (buckets ! b)
     \<and> (\<forall>b'. b < b' \<and> b' < length buckets \<longrightarrow>
           \<not> (ns > fst (buckets ! b') \<and> nt < snd (buckets ! b')))"
  (is "?L \<longleftrightarrow> ?R")
proof
  assume ?L
  then obtain sz where "first_overflowed (rev (enumerate 0 buckets)) ns nt = Some (b, sz)"
    by (auto simp: buckets_descending_rev)
  then show ?R unfolding first_overflowed_Some by blast
next
  assume ?R
  then have "first_overflowed (rev (enumerate 0 buckets)) ns nt = Some (b, fst (buckets ! b))"
    unfolding first_overflowed_Some by blast
  then show ?L by (simp add: buckets_descending_rev)
qed


text \<open>
  Claim C10. Reading without a limit, the hierarchical loader processes every line pair
  that both files have, and returns when each of them parses. Each bucket then holds, in
  reading order, exactly the articles for which it is the bucket of largest index whose
  source capacity is less than the number of sentences and whose target capacity is
  greater than the number of target ids, end-of-sequence id included; each is stored with
  its first sentences up to the capacity, exactly as many as the capacity. An article for
  which no bucket qualifies is therefore in no bucket. With the buckets of the script no
  bucket qualifies for an article of one sentence (an article has at least one) nor for a
  target of 48 or more ids.
\<close>

theorem read_data_seq3seq_largest_overflowed:
  assumes "max_size = None \<or> max_size = Some 0"
  shows
  "(read_data_seq3seq buckets eos max_sent source_file target_file max_size = Inr data_set \<longrightarrow>
      (\<exists>exs. length exs = min (length (readlines source_file)) (length (readlines target_file))
         \<and> (\<forall>i<length exs.
               line_ids_seq3seq eos max_sent (readlines source_file ! i) (readlines target_file ! i)
                 = Inr (exs ! i)
               \<and> 1 \<le> length (fst (exs ! i))
               \<and> length (snd (exs ! i)) = length (py_split (readlines target_file ! i)) + 1)
         \<and> length data_set = length buckets
         \<and> (\<forall>b<length buckets.
               data_set ! b =
                 map (\<lambda>e. (take (fst (buckets ! b)) (fst e), snd e))
                   (filter (\<lambda>e. length (fst e) > fst (buckets ! b)
                                \<and> length (snd e) < snd (buckets ! b)
                                \<and> (\<forall>b'. b < b' \<and> b' < length buckets \<longrightarrow>
                                      \<not> (length (fst e) > fst (buckets ! b')
                                          \<and> length (snd e) < snd (buckets ! b')))) exs)
               \<and> (\<forall>e\<in>set (data_set ! b). length (fst e) = fst (buckets ! b)))))
   \<and> ((\<forall>i<min (length (readlines source_file)) (length (readlines target_file)).
          \<exists>ex. line_ids_seq3seq eos max_sent (readlines source_file ! i)
                 (readlines target_file ! i) = Inr ex)
        \<longrightarrow> (\<exists>ds. read_data_seq3seq buckets eos max_sent source_file target_file max_size
                    = Inr ds))
   \<and> (\<forall>b<length buckets_seq3seq. \<forall>ns nt. ns \<le> 1 \<or> 48 \<le> nt \<longrightarrow>
          \<not> (ns > fst (buckets_seq3seq ! b) \<and> nt < snd (buckets_seq3seq ! b)))"
proof (intro conjI impI)
  let ?ss = "readlines source_file" and ?ts = "readlines target_file"
  let ?f = "\<lambda>b e. (take (fst (buckets ! b)) (fst e), snd e)"
  let ?p = "\<lambda>b e. map_option fst (first_overflowed (buckets_descending buckets)
                                    (length (fst e)) (length (snd e))) = Some b"
  let ?q = "\<lambda>b e. length (fst e) > fst (buckets ! b) \<and> length (snd e) < snd (buckets ! b)
                  \<and> (\<forall>b'. b < b' \<and> b' < length buckets \<longrightarrow>
                        \<not> (length (fst e) > fst (buckets ! b')
                            \<and> length (snd e) < snd (buckets ! b')))"
  assume r: "read_data_seq3seq buckets eos max_sent source_file target_file max_size
               = Inr data_set"
  have loop: "read_loop_seq3seq buckets eos max_sent max_size ?ss ?ts 0
                (map (\<lambda>_. []) buckets) = Inr data_set"
    using r by (simp only: read_data_seq3seq_def)
  have len: "length (map (\<lambda>_. []) buckets) = length buckets" by simp
  from read_loop_seq3seq_complete [OF assms loop len] obtain exs where exs:
    "length exs = min (length ?ss) (length ?ts)"
    "\<forall>i<length exs. line_ids_seq3seq eos max_sent (?ss ! i) (?ts ! i) = Inr (exs ! i)"
    "length data_set = length buckets"
    "\<forall>b<length buckets.
       data_set ! b = map (\<lambda>_. []) buckets ! b @ map (?f b) (filter (?p b) exs)"
    by blast
  have lines: "\<forall>i<length exs.
               line_ids_seq3seq eos max_sent (?ss ! i) (?ts ! i) = Inr (exs ! i)
               \<and> 1 \<le> length (fst (exs ! i))
               \<and> length (snd (exs ! i)) = length (py_split (?ts ! i)) + 1"
  proof (intro allI impI)
    fix i assume "i < length exs"
    with exs(2) have l: "line_ids_seq3seq eos max_sent (?ss ! i) (?ts ! i) = Inr (exs ! i)"
      by blast
    from l line_ids_seq3seq_Inr(1) [OF l] line_ids_seq3seq_Inr(2) [OF l]
    show "line_ids_seq3seq eos max_sent (?ss ! i) (?ts ! i) = Inr (exs ! i)
               \<and> 1 \<le> length (fst (exs ! i))
               \<and> length (snd (exs ! i)) = length (py_split (?ts ! i)) + 1"
      by (intro conjI)
  qed
  have nth: "\<forall>b<length buckets.
               data_set ! b = map (?f b) (filter (?q b) exs)
               \<and> (\<forall>e\<in>set (data_set ! b). length (fst e) = fst (buckets ! b))"
  proof (intro allI impI)
    fix b assume b: "b < length buckets"
    have pq: "\<And>e. ?p b e \<longleftrightarrow> ?q b e"
    proof -
      fix e
      from first_overflowed_largest [of buckets "length (fst e)" "length (snd e)" b] b
      show "?p b e \<longleftrightarrow> ?q b e" by blast
    qed
    from exs(4) b
    have "data_set ! b = map (\<lambda>_. []) buckets ! b @ map (?f b) (filter (?p b) exs)"
      by blast
    with b have "data_set ! b = map (?f b) (filter (?p b) exs)" by simp
    then have d: "data_set ! b = map (?f b) (filter (?q b) exs)" by (simp only: pq)
    have c: "\<forall>e\<in>set (data_set ! b). length (fst e) = fst (buckets ! b)"
    proof
      fix e assume "e \<in> set (data_set ! b)"
      with d obtain e0 where e0: "e = ?f b e0" "?q b e0" by auto
      then show "length (fst e) = fst (buckets ! b)" by simp
    qed
    from d c show "data_set ! b = map (?f b) (filter (?q b) exs)
               \<and> (\<forall>e\<in>set (data_set ! b). length (fst e) = fst (buckets ! b))"
      by (rule conjI)
  qed
  show "\<exists>exs. length exs = min (length ?ss) (length ?ts)
         \<and> (\<forall>i<length exs.
               line_ids_seq3seq eos max_sent (?ss ! i) (?ts ! i) = Inr (exs ! i)
               \<and> 1 \<le> length (fst (exs ! i))
               \<and> length (snd (exs ! i)) = length (py_split (?ts ! i)) + 1)
         \<and> length data_set = length buckets
         \<and> (\<forall>b<length buckets.
               data_set ! b = map (?f b) (filter (?q b) exs)
               \<and> (\<forall>e\<in>set (data_set ! b). length (fst e) = fst (buckets ! b)))"
  proof (intro exI conjI)
    show "length exs = min (length ?ss) (length ?ts)" by (rule exs(1))
    show "\<forall>i<length exs.
               line_ids_seq3seq eos max_sent (?ss ! i) (?ts ! i) = Inr (exs ! i)
               \<and> 1 \<le> length (fst (exs ! i))
               \<and> length (snd (exs ! i)) = length (py_split (?ts ! i)) + 1"
      by (rule lines)
    show "length data_set = length buckets" by (rule exs(3))
    show "\<forall>b<length buckets.
               data_set ! b = map (?f b) (filter (?q b) exs)
               \<and> (\<forall>e\<in>set (data_set ! b). length (fst e) = fst (buckets ! b))"
      by (rule nth)
  qed
next
  assume "\<forall>i<min (length (readlines source_file)) (length (readlines target_file)).
          \<exists>ex. line_ids_seq3seq eos max_sent (readlines source_file ! i)
                 (readlines target_file ! i) = Inr ex"
  with assms
  have "\<exists>ds'. read_loop_seq3seq buckets eos max_sent max_size (readlines source_file)
                 (readlines target_file) 0 (map (\<lambda>_. []) buckets) = Inr ds'"
    by (rule read_loop_seq3seq_returns)
  then show "\<exists>ds. read_data_seq3seq buckets eos max_sent source_file target_file max_size
                    = Inr ds"
    by (simp only: read_data_seq3seq_def)
next
  show "\<forall>b<length buckets_seq3seq. \<forall>ns nt. ns \<le> 1 \<or> 48 \<le> nt \<longrightarrow>
          \<not> (ns > fst (buckets_seq3seq ! b) \<and> nt < snd (buckets_seq3seq ! b))"
  proof (intro allI impI)
    fix b and ns nt :: nat
    assume "b < length buckets_seq3seq" and a: "ns \<le> 1 \<or> 48 \<le> nt"
    from buckets_seq3seq_bounds [OF this(1)] a
    show "\<not> (ns > fst (buckets_seq3seq ! b) \<and> nt < snd (buckets_seq3seq ! b))" by auto
  qed
qed

lemma read_data_seq3seq_two_articles:
  "read_data_seq3seq buckets_seq3seq 2 3 ''4 5 2 6\<newline>9\<newline>'' ''7 8\<newline>1\<newline>'' None
     = Inr [[([[2, 4, 5, 0]], [7, 8, 2])], [], [], [], [], []]"
  by (simp add: read_data_seq3seq_def readlines_def within_limit_def line_ids_seq3seq_def
      py_split_sep_def py_str_def str_nat.simps digit_char_def py_split_def is_space_def
      py_int_def digit_val_def pad_sent_def slice_to_def py_repeat_def numeral_2_eq_2
      put_in_bucket_def buckets_descending_rev buckets_seq3seq_def)

theorem read_data_seq3seq_largest_overflowed_witness:
  "read_data_seq3seq buckets_seq3seq 2 3 ''4 5 2 6\<newline>9\<newline>'' ''7 8\<newline>1\<newline>'' None
     = Inr [[([[2, 4, 5, 0]], [7, 8, 2])], [], [], [], [], []]
   \<and> min (length (readlines ''4 5 2 6\<newline>9\<newline>'')) (length (readlines ''7 8\<newline>1\<newline>'')) = 2
   \<and> length [[([[2, 4, 5, 0 :: int]], [7, 8, 2 :: int])], [], [], [], [], []]
       = length buckets_seq3seq"
proof -
  let ?ds = "[[([[2, 4, 5, 0 :: int]], [7, 8, 2 :: int])], [], [], [], [], []]"
  have n: "(None :: int option) = None \<or> (None :: int option) = Some 0" by simp
  have r: "read_data_seq3seq buckets_seq3seq 2 3 ''4 5 2 6\<newline>9\<newline>'' ''7 8\<newline>1\<newline>'' None = Inr ?ds"
    by (rule read_data_seq3seq_two_articles)
  note t = read_data_seq3seq_largest_overflowed
    [OF n, of buckets_seq3seq 2 3 "''4 5 2 6\<newline>9\<newline>''" "''7 8\<newline>1\<newline>''" ?ds]
  from t [THEN conjunct1, THEN mp, OF r]
  have l: "length ?ds = length buckets_seq3seq"
    by (elim exE conjE)
  have m: "min (length (readlines ''4 5 2 6\<newline>9\<newline>'')) (length (readlines ''7 8\<newline>1\<newline>'')) = 2"
    by (simp add: readlines_def)
  from r m l show ?thesis by (intro conjI)
qed

subsection \<open>The sampling loop of the flat decode\<close>

lemma generated_tokens_unbound:
  assumes "env ''batch_logit'' = None"
  shows "generated_tokens iter draw env (row # rows) = Inl (NameError ''batch_logit'')"
proof -
  have "(env(''batch_logits'' \<mapsto> row)) ''batch_logit'' = None"
    using assms by simp
  then have "lookup_name (env(''batch_logits'' \<mapsto> row)) ''batch_logit''
               = Inl (NameError ''batch_logit'')"
    by (simp only: lookup_name_def option.case)
  then show ?thesis by (simp add: Let_def)
qed

lemma sampling_pass_fails:
  assumes "env ''batch_logit'' = None"
  shows "sampling_pass step continue iter draw env g \<noteq> Inr r"
proof (cases "step g")
  case (Inl e)
  then show ?thesis by (simp add: sampling_pass_def)
next
  case (Inr output_logits)
  note st = this
  show ?thesis
  proof (cases continue)
    case False
    with st show ?thesis by (simp add: sampling_pass_def set_trace_def)
  next
    case True
    show ?thesis
    proof (cases output_logits)
      case Nil
      with st True show ?thesis by (simp add: sampling_pass_def set_trace_def)
    next
      case (Cons rows rest)
      show ?thesis
      proof (cases rows)
        case Nil
        with st True Cons show ?thesis
          by (simp add: sampling_pass_def set_trace_def ndarray_append_def)
      next
        case (Cons row rows')
        with st True \<open>output_logits = rows # rest\<close> generated_tokens_unbound [where env = env, OF assms]
        show ?thesis by (simp add: sampling_pass_def set_trace_def)
      qed
    qed
  qed
qed

lemma sampling_pass_name_error:
  assumes "env ''batch_logit'' = None" and "step g = Inr (rows # rest)" and "rows \<noteq> []"
  shows "sampling_pass step True iter draw env g = Inl (NameError ''batch_logit'')"
proof -
  from assms(3) obtain row rows' where "rows = row # rows'" by (cases rows) auto
  with assms(2) generated_tokens_unbound [where env = env, OF assms(1)]
  show ?thesis by (simp add: sampling_pass_def set_trace_def)
qed

lemma frame_of_decode_names: "frame_of decode_names v ''batch_logit'' = None"
  by (simp add: frame_of_def decode_names_def)

text \<open>
  Claim C9. In the sampling loop of the flat decode the name \<^verbatim>\<open>batch_logit\<close> is read
  where it is bound neither in the function nor in the module. When the first forward
  step returns at least one batch row and the debugger lets the run continue, the first
  pass raises \<^verbatim>\<open>NameError\<close> for that name inside the comprehension, before anything is
  appended; and whatever the step and the debugger do, a loop of at least one pass, such
  as the 48 passes of the script's bucket, never returns a result.
\<close>

theorem sampling_loop_never_completes:
  assumes "env ''batch_logit'' = None"
  shows "(\<forall>rows rest. step g = Inr (rows # rest) \<and> rows \<noteq> [] \<longrightarrow>
            generated_tokens iter draw env rows = Inl (NameError ''batch_logit'')
            \<and> sampling_loop (Suc n) step True iter draw env g = Inl (NameError ''batch_logit'')
            \<and> decode_sampling buckets_seq2seq 0 step True iter draw env g
                = Inl (NameError ''batch_logit''))
         \<and> (\<forall>r. sampling_loop (Suc n) step continue iter draw env g \<noteq> Inr r)
         \<and> (\<forall>r. decode_sampling buckets_seq2seq 0 step continue iter draw env g \<noteq> Inr r)"
proof (intro conjI allI impI)
  fix rows rest
  assume a: "step g = Inr (rows # rest) \<and> rows \<noteq> []"
  then obtain row rows' where "rows = row # rows'" by (cases rows) auto
  then show "generated_tokens iter draw env rows = Inl (NameError ''batch_logit'')"
    using generated_tokens_unbound [where env = env, OF assms] by simp
  have p: "sampling_pass step True iter draw env g = Inl (NameError ''batch_logit'')"
    using assms a by (intro sampling_pass_name_error) blast+
  then show "sampling_loop (Suc n) step True iter draw env g = Inl (NameError ''batch_logit'')"
    by simp
  have b: "snd (buckets_seq2seq ! 0) = Suc 47" by (simp add: buckets_seq2seq_def)
  show "decode_sampling buckets_seq2seq 0 step True iter draw env g
                = Inl (NameError ''batch_logit'')"
    unfolding decode_sampling_def b by (simp only: sampling_loop.simps p sum.case)
next
  fix r
  have f: "\<And>r'. sampling_pass step continue iter draw env g \<noteq> Inr r'"
    using assms by (rule sampling_pass_fails)
  then obtain e where e: "sampling_pass step continue iter draw env g = Inl e"
    by (cases "sampling_pass step continue iter draw env g") auto
  then show "sampling_loop (Suc n) step continue iter draw env g \<noteq> Inr r" by simp
  have b: "snd (buckets_seq2seq ! 0) = Suc 47" by (simp add: buckets_seq2seq_def)
  have "decode_sampling buckets_seq2seq 0 step continue iter draw env g = Inl e"
    unfolding decode_sampling_def b by (simp only: sampling_loop.simps e sum.case)
  then show "decode_sampling buckets_seq2seq 0 step continue iter draw env g \<noteq> Inr r"
    by simp
qed

theorem sampling_loop_never_completes_witness:
  "frame_of decode_names ([] :: int list) ''batch_logit'' = None
   \<and> decode_sampling buckets_seq2seq 0 (\<lambda>g. Inr [[[1, 2], [3, 4 :: int]]]) True
        (\<lambda>v. Inr (map (\<lambda>x. [x]) v)) sum_list (frame_of decode_names []) (0 :: nat)
       = Inl (NameError ''batch_logit'')"
proof -
  have h: "frame_of decode_names ([] :: int list) ''batch_logit'' = None"
    by (rule frame_of_decode_names)
  have s: "(\<lambda>g. Inr [[[1, 2], [3, 4 :: int]]] :: py_error + int list list list) (0 :: nat)
             = Inr ([[1, 2], [3, 4]] # []) \<and> [[1, 2], [3, 4 :: int]] \<noteq> []"
    by simp
  from sampling_loop_never_completes
      [where env = "frame_of decode_names []" and step = "\<lambda>g. Inr [[[1, 2], [3, 4 :: int]]]"
         and g = "0 :: nat" and iter = "\<lambda>v. Inr (map (\<lambda>x. [x]) v)" and draw = sum_list
         and n = 0 and continue = True, OF h] s
  have "decode_sampling buckets_seq2seq 0 (\<lambda>g. Inr [[[1, 2], [3, 4 :: int]]]) True
        (\<lambda>v. Inr (map (\<lambda>x. [x]) v)) sum_list (frame_of decode_names []) (0 :: nat)
       = Inl (NameError ''batch_logit'')"
    by blast
  with h show ?thesis by simp
qed

subsection \<open>The cut of the flat decode\<close>

lemma cut_outputs_seq2seq_unbound:
  assumes "env ''batch_size'' = None"
  shows "cut_outputs_seq2seq env to_nat eos outputs = Inl (NameError ''batch_size'')"
  using assms by (simp add: cut_outputs_seq2seq_def lookup_name_def)

lemma frame_of_decode_names_batch_size: "frame_of decode_names v ''batch_size'' = None"
  by (simp add: frame_of_def decode_names_def)

lemma decode_sampling_fails:
  assumes "env ''batch_logit'' = None"
  shows "decode_sampling buckets_seq2seq 0 step continue iter draw env g \<noteq> Inr r"
proof -
  have "\<And>r'. sampling_pass step continue iter draw env g \<noteq> Inr r'"
    using assms by (rule sampling_pass_fails)
  then obtain e where e: "sampling_pass step continue iter draw env g = Inl e"
    by (cases "sampling_pass step continue iter draw env g") auto
  have b: "snd (buckets_seq2seq ! 0) = Suc 47" by (simp add: buckets_seq2seq_def)
  have "decode_sampling buckets_seq2seq 0 step continue iter draw env g = Inl e"
    unfolding decode_sampling_def b by (simp only: sampling_loop.simps e sum.case)
  then show ?thesis by simp
qed

lemma decode_bucket_seq2seq_fails:
  assumes "env ''batch_logit'' = None"
  shows "decode_bucket_seq2seq buckets_seq2seq 0 batch_size eos get_batch step continue iter draw
           to_nat env \<noteq> Inr r"
proof (cases "get_batch 0")
  case (Inl e)
  then show ?thesis by (simp add: decode_bucket_seq2seq_def)
next
  case (Inr decoder_inputs_true)
  note gb = this
  show ?thesis
  proof (cases decoder_inputs_true)
    case Nil
    with gb show ?thesis by (simp add: decode_bucket_seq2seq_def)
  next
    case (Cons first rest)
    show ?thesis
    proof (cases continue)
      case False
      with gb Cons show ?thesis by (simp add: decode_bucket_seq2seq_def set_trace_def)
    next
      case True
      obtain e where "decode_sampling buckets_seq2seq 0 step continue iter draw env
                        (first # map (map (\<lambda>_. 0)) rest) = Inl e"
        using decode_sampling_fails
          [where env = env and step = step and continue = continue and iter = iter
             and draw = draw and g = "first # map (map (\<lambda>_. 0)) rest", OF assms]
        by (cases "decode_sampling buckets_seq2seq 0 step continue iter draw env
                        (first # map (map (\<lambda>_. 0)) rest)") auto
      with gb Cons True show ?thesis by (simp add: decode_bucket_seq2seq_def set_trace_def)
    qed
  qed
qed

text \<open>
  Claim C5, on the flat variant. With a batch of two titles of two positions the sampling
  loop raises \<^verbatim>\<open>NameError\<close> for \<^verbatim>\<open>batch_logit\<close> on its first pass, so the decode of the
  bucket returns no output at all; and the cut, were it reached with the outputs
  \<open>[5, 9, 2, 7]\<close> and \<open>[3, 2, 6, 8]\<close> and the end-of-sequence id 2, raises \<^verbatim>\<open>NameError\<close>
  for \<^verbatim>\<open>batch_size\<close> instead of returning \<open>[5, 9]\<close> and \<open>[3]\<close>.
\<close>

theorem decode_seq2seq_returns_no_cut:
  "decode_bucket_seq2seq buckets_seq2seq 0 2 2 (\<lambda>b. Inr [[1, 1], [5, 3]])
       (\<lambda>g. Inr [[[1, 2], [3, 4 :: int]]]) True (\<lambda>v. Inr (map (\<lambda>x. [x]) v)) sum_list
       (\<lambda>v. Inr (length v)) (frame_of decode_names [])
     = Inl (NameError ''batch_logit'')
   \<and> cut_outputs_seq2seq (frame_of decode_names ([] :: int list)) (\<lambda>v. Inr (length v)) 2
       [[5, 9, 2, 7], [3, 2, 6, 8]]
     = Inl (NameError ''batch_size'')
   \<and> cut_at_eos 2 [5, 9, 2, 7] = Inr [5, 9]
   \<and> cut_at_eos 2 [3, 2, 6, 8] = Inr [3]"
proof (intro conjI)
  let ?env = "frame_of decode_names ([] :: int list)"
  let ?step = "\<lambda>g :: int list list. Inr [[[1, 2], [3, 4 :: int]]] :: py_error + int list list list"
  have h: "?env ''batch_logit'' = None" by (rule frame_of_decode_names)
  have s: "?step [[1, 1], [0, 0]] = Inr ([[1, 2], [3, 4]] # [])" by simp
  have ne: "[[1, 2], [3, 4 :: int]] \<noteq> []" by simp
  have p: "sampling_pass ?step True (\<lambda>v. Inr (map (\<lambda>x. [x]) v)) sum_list ?env
             [[1, 1], [0, 0]] = Inl (NameError ''batch_logit'')"
    using h s ne by (rule sampling_pass_name_error [where env = ?env])
  have b: "snd (buckets_seq2seq ! 0) = Suc 47" by (simp add: buckets_seq2seq_def)
  have d: "decode_sampling buckets_seq2seq 0 ?step True (\<lambda>v. Inr (map (\<lambda>x. [x]) v)) sum_list ?env
             [[1, 1], [0, 0]] = Inl (NameError ''batch_logit'')"
    unfolding decode_sampling_def b by (simp only: sampling_loop.simps p sum.case)
  show "decode_bucket_seq2seq buckets_seq2seq 0 2 2 (\<lambda>b. Inr [[1, 1], [5, 3]])
       ?step True (\<lambda>v. Inr (map (\<lambda>x. [x]) v)) sum_list
       (\<lambda>v. Inr (length v)) ?env
     = Inl (NameError ''batch_logit'')"
    by (simp add: decode_bucket_seq2seq_def set_trace_def d)
  show "cut_outputs_seq2seq ?env (\<lambda>v. Inr (length v)) 2 [[5, 9, 2, 7], [3, 2, 6, 8]]
     = Inl (NameError ''batch_size'')"
    using frame_of_decode_names_batch_size by (rule cut_outputs_seq2seq_unbound)
  show "cut_at_eos 2 [5, 9, 2, 7] = Inr [5, 9]" by (simp add: cut_at_eos_def)
  show "cut_at_eos 2 [3, 2, 6, 8] = Inr [3]" by (simp add: cut_at_eos_def)
qed

end
